theory Spec2Isabelle
  imports Main
begin

section \<open>Strings of the host language\<close>

text \<open>
  A JavaScript string is modelled as the list of its code units, for code units below 256
  (\<^typ>\<open>string\<close>). The primitives below are the ones the inventory code calls:
  \<^verbatim>\<open>trim\<close>, \<^verbatim>\<open>split\<close> on a one-character separator, \<^verbatim>\<open>join\<close>,
  \<^verbatim>\<open>toLowerCase\<close>, \<^verbatim>\<open>parseInt\<close> and the number-to-string conversion of a template
  literal. Numbers are \<^typ>\<open>int\<close>: the model is exact for the safe integers.
\<close>

text \<open>White space as \<^verbatim>\<open>String.prototype.trim\<close> sees it: TAB, LF, VT, FF, CR, SP, NBSP.\<close>

definition isWhiteSpace :: "char \<Rightarrow> bool" where
  "isWhiteSpace c = (c \<in> set [CHR 0x09, CHR 0x0A, CHR 0x0B, CHR 0x0C, CHR 0x0D, CHR 0x20, CHR 0xA0])"

definition trim :: "string \<Rightarrow> string" where
  "trim s = rev (dropWhile isWhiteSpace (rev (dropWhile isWhiteSpace s)))"

text \<open>\<^verbatim>\<open>s.split(sep)\<close> for a one-character separator; the empty string gives one empty piece.\<close>

fun js_split :: "char \<Rightarrow> string \<Rightarrow> string \<Rightarrow> string list" where
  "js_split sep cur [] = [cur]"
| "js_split sep cur (c # cs) =
     (if c = sep then cur # js_split sep [] cs else js_split sep (cur @ [c]) cs)"

text \<open>\<^verbatim>\<open>xs.join(sep)\<close>.\<close>

fun js_join :: "string \<Rightarrow> string list \<Rightarrow> string" where
  "js_join sep [] = []"
| "js_join sep [x] = x"
| "js_join sep (x # y # ys) = x @ sep @ js_join sep (y # ys)"

text \<open>\<^verbatim>\<open>toLowerCase\<close> on the code units below 256: A-Z and the accented capitals.\<close>

definition toLowerCase_char :: "char \<Rightarrow> char" where
  "toLowerCase_char c =
     (let n = (of_char c :: nat)
      in if (65 \<le> n \<and> n \<le> 90) \<or> (192 \<le> n \<and> n \<le> 222 \<and> n \<noteq> 215) then char_of (n + 32) else c)"

definition toLowerCase :: "string \<Rightarrow> string" where
  "toLowerCase s = map toLowerCase_char s"

text \<open>
  \<^verbatim>\<open>parseInt(s)\<close> with no radix: leading white space is skipped, then an optional sign,
  then the prefix \<^verbatim>\<open>0x\<close> or \<^verbatim>\<open>0X\<close> selects radix 16; the longest run of digits of the
  radix is the value, and no digit at all is \<^verbatim>\<open>NaN\<close> (here \<open>None\<close>).
\<close>

definition digitValue :: "char \<Rightarrow> nat option" where
  "digitValue c =
     (let n = (of_char c :: nat)
      in if 48 \<le> n \<and> n \<le> 57 then Some (n - 48)
         else if 97 \<le> n \<and> n \<le> 122 then Some (n - 87)
         else if 65 \<le> n \<and> n \<le> 90 then Some (n - 55)
         else None)"

definition isRadixDigit :: "nat \<Rightarrow> char \<Rightarrow> bool" where
  "isRadixDigit radix c = (case digitValue c of None \<Rightarrow> False | Some d \<Rightarrow> d < radix)"

fun digitsValue :: "nat \<Rightarrow> int \<Rightarrow> string \<Rightarrow> int" where
  "digitsValue radix acc [] = acc"
| "digitsValue radix acc (c # cs) =
     (case digitValue c of
        None \<Rightarrow> acc
      | Some d \<Rightarrow> digitsValue radix (acc * int radix + int d) cs)"

definition parseInt :: "string \<Rightarrow> int option" where
  "parseInt s =
     (let s1 = dropWhile isWhiteSpace s;
          neg = (case s1 of [] \<Rightarrow> False | c # _ \<Rightarrow> c = CHR ''-'');
          s2 = (case s1 of [] \<Rightarrow> s1 | c # r \<Rightarrow> if c = CHR ''-'' \<or> c = CHR ''+'' then r else s1);
          hex = (take 2 s2 = ''0x'' \<or> take 2 s2 = ''0X'');
          radix = (if hex then 16 else 10);
          s3 = (if hex then drop 2 s2 else s2);
          ds = takeWhile (isRadixDigit radix) s3
      in if ds = [] then None
         else Some ((if neg then - 1 else 1) * digitsValue radix 0 ds))"

text \<open>A number and a boolean inside a template literal.\<close>

fun natDigits :: "nat \<Rightarrow> string" where
  "natDigits n =
     (if n < 10 then [char_of (48 + n)] else natDigits (n div 10) @ [char_of (48 + n mod 10)])"

declare natDigits.simps [simp del]

definition numberToString :: "int \<Rightarrow> string" where
  "numberToString n = (if n < 0 then CHR ''-'' # natDigits (nat (- n)) else natDigits (nat n))"

definition booleanToString :: "bool \<Rightarrow> string" where
  "booleanToString b = (if b then ''true'' else ''false'')"

section \<open>The record model\<close>

text \<open>The interfaces of \<^verbatim>\<open>types/inventory\<close>; \<^verbatim>\<open>InventoryFormData\<close> is
  \<^verbatim>\<open>Omit<InventoryItem, 'id'>\<close>, so the item extends it by its identifier.\<close>

record sizeVariant =
  id_v :: string
  size_v :: string
  inStock :: bool
  quantity :: int
  location :: string

datatype customFieldValue = FieldText string | FieldNumber int

datatype customFieldType = TextField | NumberField

record customFieldDefinition =
  id_f :: string
  label :: string
  type_f :: customFieldType

record inventoryFormData =
  sku :: string
  title :: string
  imageUrl :: "string option"
  variants :: "sizeVariant list"
  customFields :: "(string \<times> customFieldValue) list option"

record inventoryItem = inventoryFormData +
  id_i :: string

section \<open>The import tokenizer\<close>

text \<open>
  The character loop of \<^verbatim>\<open>parseCSV\<close> (InventoryForm.tsx, lines 392-407), with its three
  variables \<^verbatim>\<open>fields\<close> (here \<open>flds\<close>), \<^verbatim>\<open>current\<close> and \<^verbatim>\<open>inQuotes\<close>; the last
  equation is the \<^verbatim>\<open>fields.push(current.trim())\<close> after the loop.
\<close>

fun tokenize_loop :: "string list \<Rightarrow> string \<Rightarrow> bool \<Rightarrow> string \<Rightarrow> string list" where
  "tokenize_loop flds current inQuotes [] = flds @ [trim current]"
| "tokenize_loop flds current inQuotes (c # line) =
     (if c = CHR 0x22 then tokenize_loop flds current (\<not> inQuotes) line
      else if c = CHR '','' \<and> \<not> inQuotes then tokenize_loop (flds @ [trim current]) [] inQuotes line
      else tokenize_loop flds (current @ [c]) inQuotes line)"

definition tokenize :: "string \<Rightarrow> string list" where
  "tokenize line = tokenize_loop [] [] False line"

section \<open>The import codec\<close>

text \<open>
  \<^verbatim>\<open>parseCSV\<close> of the import dialog. The \<^verbatim>\<open>Map\<close> of items is an association list in
  insertion order. Every variant identifier is \<^verbatim>\<open>`${Date.now()}-${Math.random()}`\<close>: the
  model draws the \<open>n\<close>-th identifier of a run from a supply \<open>fresh\<close>. The
  \<^verbatim>\<open>console.warn\<close> of a skipped row is kept as the list of the row numbers warned about.
\<close>

datatype importError = EmptyOrMalformed | NoValidData | NoFileSelected

record parseState =
  warned :: "nat list"
  drawn :: nat
  itemsMap :: "(string \<times> inventoryFormData) list"

fun itemsMap_set ::
  "string \<Rightarrow> inventoryFormData \<Rightarrow> (string \<times> inventoryFormData) list \<Rightarrow> (string \<times> inventoryFormData) list"
where
  "itemsMap_set k v [] = [(k, v)]"
| "itemsMap_set k v ((k', v') # m) =
     (if k' = k then (k, v) # m else (k', v') # itemsMap_set k v m)"

fun newVariants :: "(nat \<Rightarrow> string) \<Rightarrow> nat \<Rightarrow> string list \<Rightarrow> bool \<Rightarrow> int \<Rightarrow> string \<Rightarrow> sizeVariant list" where
  "newVariants fresh n [] stock qty loc = []"
| "newVariants fresh n (sz # sizes) stock qty loc =
     \<lparr>id_v = fresh n, size_v = sz, inStock = stock, quantity = qty, location = trim loc\<rparr>
       # newVariants fresh (Suc n) sizes stock qty loc"

definition processRow :: "(nat \<Rightarrow> string) \<Rightarrow> parseState \<Rightarrow> nat \<times> string \<Rightarrow> parseState" where
  "processRow fresh st row =
     (let index = fst row; line = snd row; flds = tokenize line
      in if length flds < 6 then st\<lparr>warned := warned st @ [index + 2]\<rparr>
         else
           let sku0 = flds ! 0; title0 = flds ! 1; sizeStr = flds ! 2; inStockStr = flds ! 3;
               quantityStr = flds ! 4; location0 = flds ! 5;
               imageUrl0 = (if 6 < length flds then Some (flds ! 6) else None);
               sizes = filter (\<lambda>s. s \<noteq> []) (map trim (js_split CHR '','' [] sizeStr));
               stock = (toLowerCase inStockStr = ''true'' \<or> inStockStr = ''1'');
               qty = (case parseInt quantityStr of None \<Rightarrow> 0 | Some q \<Rightarrow> q);
               skuKey = trim sku0;
               vs = newVariants fresh (drawn st) sizes stock qty location0
           in (case map_of (itemsMap st) skuKey of
                 Some existingItem \<Rightarrow>
                   st\<lparr>drawn := drawn st + length sizes,
                      itemsMap := itemsMap_set skuKey
                        (existingItem\<lparr>variants := variants existingItem @ vs\<rparr>) (itemsMap st)\<rparr>
               | None \<Rightarrow>
                   st\<lparr>drawn := drawn st + length sizes,
                      itemsMap := itemsMap_set skuKey
                        \<lparr>sku = skuKey, title = trim title0,
                         imageUrl = (case imageUrl0 of None \<Rightarrow> None
                                     | Some u \<Rightarrow> if trim u = [] then None else Some (trim u)),
                         variants = vs, customFields = None\<rparr> (itemsMap st)\<rparr>))"

text \<open>The \<^verbatim>\<open>dataLines.forEach((line, index) => ...)\<close> on the empty map.\<close>

definition parseLines :: "(nat \<Rightarrow> string) \<Rightarrow> string list \<Rightarrow> parseState" where
  "parseLines fresh dataLines =
     foldl (processRow fresh) \<lparr>warned = [], drawn = 0, itemsMap = []\<rparr> (enumerate 0 dataLines)"

definition parseCSV_run :: "(nat \<Rightarrow> string) \<Rightarrow> string \<Rightarrow> importError + parseState" where
  "parseCSV_run fresh text =
     (let lines = filter (\<lambda>line. trim line \<noteq> []) (js_split CHR 0x0A [] text)
      in if length lines < 2 then Inl EmptyOrMalformed
         else
           let dataLines = drop 1 lines
           in Inr (parseLines fresh dataLines))"

definition parseCSV :: "(nat \<Rightarrow> string) \<Rightarrow> string \<Rightarrow> importError + inventoryFormData list" where
  "parseCSV fresh text =
     (case parseCSV_run fresh text of
        Inl e \<Rightarrow> Inl e
      | Inr st \<Rightarrow> Inr (map snd (itemsMap st)))"

text \<open>
  \<^verbatim>\<open>handleImport\<close>: \<open>Inl\<close> is the message set with \<^verbatim>\<open>setError\<close> (the import stops and
  \<^verbatim>\<open>onImport\<close> is not called), \<open>Inr\<close> is the argument of \<^verbatim>\<open>onImport\<close>.
\<close>

definition handleImport ::
  "(nat \<Rightarrow> string) \<Rightarrow> string option \<Rightarrow> importError + inventoryFormData list" where
  "handleImport fresh selectedFile =
     (case selectedFile of
        None \<Rightarrow> Inl NoFileSelected
      | Some text \<Rightarrow>
          (case parseCSV fresh text of
             Inl e \<Rightarrow> Inl e
           | Inr parsed \<Rightarrow> if length parsed = 0 then Inl NoValidData else Inr parsed))"

text \<open>\<^verbatim>\<open>handleCSVImport\<close> of the application, as the updater given to \<^verbatim>\<open>setItems\<close>;
  \<open>newId index\<close> is the identifier made for the item at \<open>index\<close>.\<close>

definition withId :: "string \<Rightarrow> inventoryFormData \<Rightarrow> inventoryItem" where
  "withId i d =
     \<lparr>sku = sku d, title = title d, imageUrl = imageUrl d, variants = variants d,
      customFields = customFields d, id_i = i\<rparr>"

definition handleCSVImport ::
  "(nat \<Rightarrow> string) \<Rightarrow> inventoryFormData list \<Rightarrow> inventoryItem list \<Rightarrow> inventoryItem list" where
  "handleCSVImport newId importedItems prev =
     prev @ map (\<lambda>p. withId (newId (fst p)) (snd p)) (enumerate 0 importedItems)"

text \<open>The dialog wired to the application: the inventory after an import of \<open>text\<close>, and
  the error shown, if any.\<close>

definition importFile ::
  "(nat \<Rightarrow> string) \<Rightarrow> (nat \<Rightarrow> string) \<Rightarrow> string \<Rightarrow> inventoryItem list
     \<Rightarrow> inventoryItem list \<times> importError option" where
  "importFile fresh newId text prev =
     (case handleImport fresh (Some text) of
        Inl e \<Rightarrow> (prev, Some e)
      | Inr parsed \<Rightarrow> (handleCSVImport newId parsed prev, None))"

text \<open>The number of data rows of a text that the tokenizer resolves to fewer than 6 fields.\<close>

definition skippedRows :: "string \<Rightarrow> nat" where
  "skippedRows text =
     length (filter (\<lambda>line. length (tokenize line) < 6)
       (drop 1 (filter (\<lambda>line. trim line \<noteq> []) (js_split CHR 0x0A [] text))))"

section \<open>The export\<close>

text \<open>\<^verbatim>\<open>handleExportCSV\<close>: the text handed to the download, \<open>None\<close> when there is nothing
  to export.\<close>

definition exportRow :: "inventoryItem \<Rightarrow> sizeVariant \<Rightarrow> string" where
  "exportRow item variant =
     sku item @ '','' @ title item @ '','' @ size_v variant @ '','' @
     booleanToString (inStock variant) @ '','' @ numberToString (quantity variant) @ '','' @
     location variant @ '','' @ (case imageUrl item of None \<Rightarrow> [] | Some u \<Rightarrow> u)"

definition handleExportCSV :: "inventoryItem list \<Rightarrow> string option" where
  "handleExportCSV its =
     (if length its = 0 then None
      else
        let headers = ''SKU,TITLE,SIZE,IN STOCK,QUANTITY,LOCATION,IMAGE_URL'';
            rows = concat (map (\<lambda>item. map (exportRow item) (variants item)) its)
        in Some (js_join [CHR 0x0A] (headers # rows)))"

text \<open>The tuples of the round trip: one per variant, with the SKU of its item.\<close>

definition tuplesOf ::
  "'a inventoryFormData_scheme list \<Rightarrow> (string \<times> string \<times> int \<times> string \<times> bool) set" where
  "tuplesOf its =
     set (concat (map (\<lambda>item. map (\<lambda>v. (sku item, size_v v, quantity v, location v, inStock v))
       (variants item)) its))"

text \<open>The values of a variant that the round trip is about, and the group of a SKU: the
  values of the variants of all items with that SKU, in order.\<close>

definition variantData :: "sizeVariant \<Rightarrow> string \<times> int \<times> string \<times> bool" where
  "variantData v = (size_v v, quantity v, location v, inStock v)"

definition groupOf ::
  "string \<Rightarrow> 'a inventoryFormData_scheme list \<Rightarrow> (string \<times> int \<times> string \<times> bool) list" where
  "groupOf k its =
     concat (map (\<lambda>item. map variantData (variants item)) (filter (\<lambda>item. sku item = k) its))"

text \<open>Fields that the unquoted export writes and the import reads back as they are.\<close>

definition plainField :: "string \<Rightarrow> bool" where
  "plainField s = (CHR '','' \<notin> set s \<and> CHR 0x22 \<notin> set s \<and> CHR 0x0A \<notin> set s)"

definition exportable :: "inventoryItem \<Rightarrow> bool" where
  "exportable item =
     (plainField (sku item) \<and> trim (sku item) = sku item \<and> plainField (title item) \<and>
      (case imageUrl item of None \<Rightarrow> True | Some u \<Rightarrow> CHR 0x0A \<notin> set u) \<and>
      (\<forall>v \<in> set (variants item).
         plainField (size_v v) \<and> trim (size_v v) = size_v v \<and> size_v v \<noteq> [] \<and>
         plainField (location v) \<and> trim (location v) = location v \<and>
         \<bar>quantity v\<bar> < 2 ^ 53))"

text \<open>Every entry of the map of items is filed under its own SKU.\<close>

definition keyed :: "(string \<times> inventoryFormData) list \<Rightarrow> bool" where
  "keyed m = list_all (\<lambda>p. sku (snd p) = fst p) m"

section \<open>The item form\<close>

text \<open>
  \<^verbatim>\<open>handleSubmit\<close> of the item form (InventoryForm.tsx): the data given to
  \<^verbatim>\<open>onSubmit\<close>, or \<open>None\<close> when the form returns without submitting. A variant keeps the
  identifier of the edited item's variant at its index when there is one, and gets
  \<open>newId index\<close> otherwise.
\<close>

record variantFormData =
  size_f :: string
  inStock_f :: bool
  quantity_f :: int
  location_f :: string

definition handleSubmit ::
  "string \<Rightarrow> string \<Rightarrow> string \<Rightarrow> variantFormData list \<Rightarrow> inventoryItem option \<Rightarrow> (nat \<Rightarrow> string)
     \<Rightarrow> inventoryFormData option" where
  "handleSubmit sku0 title0 imageUrl0 variants0 editingItem newId =
     (let validVariants = filter (\<lambda>v. trim (size_f v) \<noteq> []) variants0
      in if length validVariants = 0 then None
         else Some
           \<lparr>sku = sku0, title = title0,
            imageUrl = (if imageUrl0 = [] then None else Some imageUrl0),
            variants = map (\<lambda>p.
              \<lparr>id_v = (case editingItem of
                         None \<Rightarrow> newId (fst p)
                       | Some e \<Rightarrow>
                           if fst p < length (variants e) \<and> id_v (variants e ! fst p) \<noteq> []
                           then id_v (variants e ! fst p) else newId (fst p)),
               size_v = size_f (snd p), inStock = inStock_f (snd p),
               quantity = quantity_f (snd p), location = location_f (snd p)\<rparr>)
              (enumerate 0 validVariants),
            customFields = None\<rparr>)"

section \<open>Mutations of the inventory\<close>

text \<open>The updaters that the handlers of the application give to \<^verbatim>\<open>setItems\<close>.\<close>

definition handleUpdateQuantity ::
  "string \<Rightarrow> string \<Rightarrow> int \<Rightarrow> inventoryItem list \<Rightarrow> inventoryItem list" where
  "handleUpdateQuantity itemId variantId newQuantity prev =
     (let qty = max 0 newQuantity
      in map (\<lambda>item.
           if id_i item \<noteq> itemId then item
           else item\<lparr>variants :=
             map (\<lambda>v. if id_v v = variantId then v\<lparr>quantity := qty, inStock := (qty > 0)\<rparr> else v)
               (variants item)\<rparr>) prev)"

text \<open>The two callers in the table: the +/- buttons and the edited number.\<close>

definition handleQuantityChange ::
  "string \<Rightarrow> string \<Rightarrow> int \<Rightarrow> int \<Rightarrow> inventoryItem list \<Rightarrow> inventoryItem list" where
  "handleQuantityChange itemId variantId delta currentQuantity prev =
     handleUpdateQuantity itemId variantId (currentQuantity + delta) prev"

definition finishEditingQuantity ::
  "string \<Rightarrow> string \<Rightarrow> string \<Rightarrow> inventoryItem list \<Rightarrow> inventoryItem list" where
  "finishEditingQuantity itemId variantId tempQuantity prev =
     handleUpdateQuantity itemId variantId
       (case parseInt tempQuantity of None \<Rightarrow> 0 | Some q \<Rightarrow> q) prev"

definition handleAddVariant ::
  "string \<Rightarrow> string \<Rightarrow> int \<Rightarrow> inventoryItem list \<Rightarrow> inventoryItem list" where
  "handleAddVariant itemId sz now prev =
     map (\<lambda>item.
       if id_i item \<noteq> itemId then item
       else item\<lparr>variants := variants item @
         [\<lparr>id_v = itemId @ ''-'' @ numberToString now, size_v = sz, inStock = False,
           quantity = 0, location = []\<rparr>]\<rparr>) prev"

definition handleDeleteVariant ::
  "string \<Rightarrow> string \<Rightarrow> inventoryItem list \<Rightarrow> inventoryItem list" where
  "handleDeleteVariant itemId variantId prev =
     map (\<lambda>item.
       if id_i item \<noteq> itemId then item
       else if length (variants item) \<le> 1 then item
       else item\<lparr>variants := filter (\<lambda>v. id_v v \<noteq> variantId) (variants item)\<rparr>) prev"

section \<open>The remote store\<close>

text \<open>
  The table \<^verbatim>\<open>inventory_data\<close>, one row per \<^verbatim>\<open>user_id\<close>. A request either is answered
  or fails with a message; a failed request leaves the table as it was.
\<close>

record remoteRow =
  inventory :: "inventoryItem list"
  custom_fields :: "customFieldDefinition list"
  updated_at :: string

datatype remoteReply = Reply_ok | Reply_error string

text \<open>
  Modelled from the spec: the \<^verbatim>\<open>upsert\<close> of the store's client library, which is not part of
  the sources. With the conflict target \<^verbatim>\<open>user_id\<close> it inserts the row when the identity
  has none; when it has one, \<^verbatim>\<open>ignoreDuplicates\<close> keeps the existing row ("ignore if a row
  already exists") and otherwise the row is overwritten (full-snapshot overwrite).
\<close>

definition upsert ::
  "bool \<Rightarrow> string \<Rightarrow> remoteRow \<Rightarrow> (string \<rightharpoonup> remoteRow) \<Rightarrow> (string \<rightharpoonup> remoteRow)" where
  "upsert ignoreDuplicates userId row tbl =
     (case tbl userId of
        None \<Rightarrow> tbl(userId \<mapsto> row)
      | Some existing \<Rightarrow> if ignoreDuplicates then tbl else tbl(userId \<mapsto> row))"

text \<open>\<^verbatim>\<open>ensureUserRow\<close> and \<^verbatim>\<open>saveInventoryData\<close> of \<^verbatim>\<open>lib/inventoryApi\<close>: the error thrown,
  if any, and the table afterwards; \<open>now\<close> is \<^verbatim>\<open>new Date().toISOString()\<close>.\<close>

definition ensureUserRow ::
  "string \<Rightarrow> string \<Rightarrow> remoteReply \<Rightarrow> (string \<rightharpoonup> remoteRow) \<Rightarrow> string option \<times> (string \<rightharpoonup> remoteRow)" where
  "ensureUserRow userId now reply tbl =
     (case reply of
        Reply_error e \<Rightarrow> (Some e, tbl)
      | Reply_ok \<Rightarrow>
          (None, upsert True userId \<lparr>inventory = [], custom_fields = [], updated_at = now\<rparr> tbl))"

definition saveInventoryData ::
  "string \<Rightarrow> inventoryItem list \<Rightarrow> customFieldDefinition list \<Rightarrow> string \<Rightarrow> remoteReply
     \<Rightarrow> (string \<rightharpoonup> remoteRow) \<Rightarrow> string option \<times> (string \<rightharpoonup> remoteRow)" where
  "saveInventoryData userId inventory0 customFields0 now reply tbl =
     (case reply of
        Reply_error e \<Rightarrow> (Some e, tbl)
      | Reply_ok \<Rightarrow>
          (None, upsert False userId
             \<lparr>inventory = inventory0, custom_fields = customFields0, updated_at = now\<rparr> tbl))"

text \<open>\<^verbatim>\<open>ensureUserRow\<close> called \<open>n\<close> times in succession, at the times \<open>nows\<close>.\<close>

fun ensureUserRow_times :: "string \<Rightarrow> string list \<Rightarrow> (string \<rightharpoonup> remoteRow) \<Rightarrow> (string \<rightharpoonup> remoteRow)" where
  "ensureUserRow_times userId [] tbl = tbl"
| "ensureUserRow_times userId (now # nows) tbl =
     ensureUserRow_times userId nows (snd (ensureUserRow userId now Reply_ok tbl))"

section \<open>The save scheduler\<close>

text \<open>
  The state of the application that the scheduler reads and writes: the React state
  (\<^verbatim>\<open>user\<close>, \<^verbatim>\<open>items\<close>, \<^verbatim>\<open>customFields\<close>, \<^verbatim>\<open>isSaving\<close>), the three refs
  (\<^verbatim>\<open>hasLoadedRef\<close>, \<^verbatim>\<open>dirtyRef\<close>, \<^verbatim>\<open>saveTimerRef\<close>), the toasts shown, the cache in
  \<^verbatim>\<open>localStorage\<close> and the remote table. \<open>saveCalls\<close> is the trace of the calls of
  \<^verbatim>\<open>saveInventoryData\<close>, each with the snapshot it carried, and \<open>inFlight\<close> holds the
  calls that wait for their reply, each with its snapshot and its time stamp.

  \<^verbatim>\<open>saveNow\<close> and \<^verbatim>\<open>scheduleSave\<close> are callbacks of one render: they read the refs when
  they run, and the values of \<^verbatim>\<open>user\<close>, \<^verbatim>\<open>items\<close> and \<^verbatim>\<open>customFields\<close> of the render
  that made them (a \<open>closure\<close>). A pending timer holds the closure of the
  \<^verbatim>\<open>saveNow\<close> it will call.

  \<^verbatim>\<open>saveNow\<close> is asynchronous. Up to its \<^verbatim>\<open>await\<close> it runs at once (\<open>saveNow_start\<close>):
  the two guards, the timer cleared, \<^verbatim>\<open>setIsSaving(true)\<close>, the request sent. The rest
  (\<open>saveNow_resolve\<close>) runs when the reply arrives, after whatever the application did in
  between: \<^verbatim>\<open>dirtyRef.current = false\<close> on success, the toast on failure,
  \<^verbatim>\<open>setIsSaving(false)\<close> in both cases. The table is written when the request is answered.
  \<open>saveNow\<close> itself is a call whose reply arrives before anything else happens.
\<close>

record closure =
  user_c :: "string option"
  items_c :: "inventoryItem list"
  customFields_c :: "customFieldDefinition list"

record cacheSnapshot =
  cached_inventory :: "inventoryItem list"
  cached_custom_fields :: "customFieldDefinition list"
  cached_at :: string

datatype toast = SaveFailed "string option"

record app =
  user :: "string option"
  items :: "inventoryItem list"
  customFields_s :: "customFieldDefinition list"
  isSaving :: bool
  hasLoaded :: bool
  dirty :: bool
  saveTimer :: "(nat \<times> closure) option"
  toasts :: "toast list"
  localStorage :: "string \<rightharpoonup> cacheSnapshot"
  remoteTable :: "string \<rightharpoonup> remoteRow"
  saveCalls :: "closure list"
  inFlight :: "(closure \<times> string) list"

text \<open>\<^verbatim>\<open>!user?.id\<close>: no user, or an empty identifier.\<close>

definition noUserId :: "string option \<Rightarrow> bool" where
  "noUserId u = (case u of None \<Rightarrow> True | Some i \<Rightarrow> i = [])"

definition closureOf :: "app \<Rightarrow> closure" where
  "closureOf st = \<lparr>user_c = user st, items_c = items st, customFields_c = customFields_s st\<rparr>"

definition saveNow_start :: "closure \<Rightarrow> string \<Rightarrow> app \<Rightarrow> app" where
  "saveNow_start cl now st =
     (if noUserId (user_c cl) \<or> \<not> hasLoaded st then st
      else if \<not> dirty st then st
      else st\<lparr>saveTimer := None, isSaving := True, saveCalls := saveCalls st @ [cl],
              inFlight := inFlight st @ [(cl, now)]\<rparr>)"

text \<open>The reply to the \<open>i\<close>-th call in flight arrives.\<close>

definition saveNow_resolve :: "nat \<Rightarrow> remoteReply \<Rightarrow> app \<Rightarrow> app" where
  "saveNow_resolve i reply st =
     (if length (inFlight st) \<le> i then st
      else
        let cl = fst (inFlight st ! i); now = snd (inFlight st ! i);
            st1 = st\<lparr>inFlight := take i (inFlight st) @ drop (Suc i) (inFlight st)\<rparr>
        in (case user_c cl of
              None \<Rightarrow> st1
            | Some userId \<Rightarrow>
                let res = saveInventoryData userId (items_c cl) (customFields_c cl) now reply
                            (remoteTable st1);
                    st2 = st1\<lparr>remoteTable := snd res\<rparr>
                in (case fst res of
                      None \<Rightarrow> st2\<lparr>dirty := False, isSaving := False\<rparr>
                    | Some e \<Rightarrow>
                        st2\<lparr>toasts := toasts st2 @ [SaveFailed (if e = [] then None else Some e)],
                            isSaving := False\<rparr>)))"

definition saveNow :: "closure \<Rightarrow> string \<Rightarrow> remoteReply \<Rightarrow> app \<Rightarrow> app" where
  "saveNow cl now reply st =
     (if noUserId (user_c cl) \<or> \<not> hasLoaded st \<or> \<not> dirty st then st
      else saveNow_resolve (length (inFlight st)) reply (saveNow_start cl now st))"

definition scheduleSave :: "closure \<Rightarrow> nat \<Rightarrow> app \<Rightarrow> app" where
  "scheduleSave cl ms st =
     (if noUserId (user_c cl) \<or> \<not> hasLoaded st then st
      else st\<lparr>dirty := True, saveTimer := Some (ms, cl)\<rparr>)"

text \<open>The pending timer expires: its callback is \<^verbatim>\<open>saveNow("debounced")\<close>. \<open>timerExpires\<close> is
  the expiry up to the \<^verbatim>\<open>await\<close>, \<open>timerFire\<close> the expiry with the reply arriving at once.\<close>

definition timerExpires :: "string \<Rightarrow> app \<Rightarrow> app" where
  "timerExpires now st =
     (case saveTimer st of
        None \<Rightarrow> st
      | Some t \<Rightarrow> saveNow_start (snd t) now (st\<lparr>saveTimer := None\<rparr>))"


text \<open>A flush trigger (page hidden, before unload) calls the \<^verbatim>\<open>saveNow\<close> of the current render.\<close>

definition flushNow :: "string \<Rightarrow> remoteReply \<Rightarrow> app \<Rightarrow> app" where
  "flushNow now reply st = saveNow (closureOf st) now reply st"

definition storageKey :: "string option \<Rightarrow> string" where
  "storageKey u =
     (case u of
        None \<Rightarrow> ''inventory_cache_guest''
      | Some i \<Rightarrow> if i = [] then ''inventory_cache_guest'' else ''inventory_cache_'' @ i)"

definition writeCache ::
  "inventoryItem list \<Rightarrow> customFieldDefinition list \<Rightarrow> string \<Rightarrow> app \<Rightarrow> app" where
  "writeCache nextItems nextFields now st =
     (if noUserId (user st) then st
      else st\<lparr>localStorage := (localStorage st)(storageKey (user st) \<mapsto>
             \<lparr>cached_inventory = nextItems, cached_custom_fields = nextFields, cached_at = now\<rparr>)\<rparr>)"

text \<open>The effect on \<^verbatim>\<open>[items, customFields]\<close>: it runs after the render that follows a change
  of either, with the callbacks of that render.\<close>

definition dataEffect :: "string \<Rightarrow> app \<Rightarrow> app" where
  "dataEffect now st =
     (if noUserId (user st) \<or> \<not> hasLoaded st then st
      else scheduleSave (closureOf st) 300 (writeCache (items st) (customFields_s st) now st))"

text \<open>
  A mutation of the debounced kind (\<^verbatim>\<open>handleUpdateQuantity\<close>, \<^verbatim>\<open>handleUpdateLocation\<close>,
  \<^verbatim>\<open>handleUpdateSKU\<close>, \<^verbatim>\<open>handleUpdateTitle\<close>): the handler queues the updater \<open>f\<close> with
  \<^verbatim>\<open>setItems\<close> and calls the \<^verbatim>\<open>scheduleSave(250)\<close> of its own render; the render with the
  updated items follows, and then the effect.
\<close>

definition debouncedMutation :: "app \<Rightarrow> (inventoryItem list \<Rightarrow> inventoryItem list) \<times> string \<Rightarrow> app" where
  "debouncedMutation st m =
     (let st1 = scheduleSave (closureOf st) 250 st;
          st2 = st1\<lparr>items := fst m (items st1)\<rparr>
      in dataEffect (snd m) st2)"

text \<open>What happens to a session, one event at a time: a debounced mutation, the expiry of
  the timer, a flush trigger, the reply to a call in flight.\<close>

datatype event =
  Mutates "(inventoryItem list \<Rightarrow> inventoryItem list) \<times> string"
  | TimerExpires string
  | Flushes string
  | Resolves nat remoteReply

fun step :: "app \<Rightarrow> event \<Rightarrow> app" where
  "step st (Mutates m) = debouncedMutation st m"
| "step st (TimerExpires now) = timerExpires now st"
| "step st (Flushes now) = saveNow_start (closureOf st) now st"
| "step st (Resolves i reply) = saveNow_resolve i reply st"

text \<open>The calls that reach the scheduler, for runs of several of them.\<close>

datatype schedulerCall = ScheduleSave closure nat | SaveNow closure string remoteReply

fun schedulerStep :: "app \<Rightarrow> schedulerCall \<Rightarrow> app" where
  "schedulerStep st (ScheduleSave cl ms) = scheduleSave cl ms st"
| "schedulerStep st (SaveNow cl now reply) = saveNow cl now reply st"

text \<open>Identifier supplies for the examples: \<open>v0\<close>, \<open>v1\<close>, ... and \<open>i0\<close>, \<open>i1\<close>, ...\<close>

definition variantIds :: "nat \<Rightarrow> string" where
  "variantIds n = CHR ''v'' # natDigits n"

definition itemIds :: "nat \<Rightarrow> string" where
  "itemIds n = CHR ''i'' # natDigits n"

text \<open>A signed-in, loaded session with an empty inventory and nothing to save.\<close>

definition app0 :: app where
  "app0 = \<lparr>user = Some ''u1'', items = [], customFields_s = [], isSaving = False,
     hasLoaded = True, dirty = False, saveTimer = None, toasts = [],
     localStorage = Map.empty, remoteTable = Map.empty, saveCalls = [], inFlight = []\<rparr>"

text \<open>The same session holding one item, a shirt of size M with 4 in stock.\<close>

definition shirt :: "int \<Rightarrow> inventoryItem" where
  "shirt n =
     \<lparr>sku = ''A1'', title = ''Shirt'', imageUrl = None,
      variants = [\<lparr>id_v = ''v1'', size_v = ''M'', inStock = (n > 0), quantity = n,
                   location = ''R1''\<rparr>],
      customFields = None, id_i = ''i1''\<rparr>"

definition app1 :: app where
  "app1 = app0\<lparr>items := [shirt 4]\<rparr>"

section \<open>Properties of the tokenizer\<close>

lemma set_trim: "set (trim s) \<subseteq> set s"
proof -
  have "set (trim s) = set (dropWhile isWhiteSpace (rev (dropWhile isWhiteSpace s)))"
    by (simp add: trim_def)
  also have "\<dots> \<subseteq> set (rev (dropWhile isWhiteSpace s))"
    by (rule set_dropWhileD [THEN subsetI])
  also have "\<dots> \<subseteq> set s"
    using set_dropWhileD by fastforce
  finally show ?thesis .
qed

lemma tokenize_loop_no_quote:
  "\<forall>f \<in> set flds. CHR 0x22 \<notin> set f \<Longrightarrow> CHR 0x22 \<notin> set current \<Longrightarrow>
   f \<in> set (tokenize_loop flds current inQuotes line) \<Longrightarrow> CHR 0x22 \<notin> set f"
proof (induction flds current inQuotes line rule: tokenize_loop.induct)
  case (1 flds current inQuotes)
  then show ?case using set_trim [of current] by auto
next
  case (2 flds current inQuotes c line)
  have t: "CHR 0x22 \<notin> set (trim current)" using 2(5) set_trim [of current] by auto
  show ?case
  proof (cases "c = CHR 0x22")
    case True
    with 2(1)[OF True 2(4) 2(5)] 2(6) show ?thesis by simp
  next
    case False
    show ?thesis
    proof (cases "c = CHR '','' \<and> \<not> inQuotes")
      case True
      have a: "\<forall>f \<in> set (flds @ [trim current]). CHR 0x22 \<notin> set f"
        using 2(4) t by simp
      have b: "f \<in> set (tokenize_loop (flds @ [trim current]) [] inQuotes line)"
        using 2(6) False True by simp
      from 2(2)[OF False True a _ b] show ?thesis by simp
    next
      case F2: False
      have a: "CHR 0x22 \<notin> set (current @ [c])" using 2(5) False by simp
      have b: "f \<in> set (tokenize_loop flds (current @ [c]) inQuotes line)"
        using 2(6) False F2 by auto
      from 2(3)[OF False F2 2(4) a b] show ?thesis .
    qed
  qed
qed

lemma tokenize_loop_in_quotes:
  "CHR 0x22 \<notin> set rest \<Longrightarrow> tokenize_loop flds current True rest = flds @ [trim (current @ rest)]"
  by (induction rest arbitrary: current) auto

text \<open>
  C10 (tokenizer quote erasure). No field that the tokenizer produces contains a double
  quote: a quote only toggles the quoting state. Hence a doubled quote leaves the field
  and the state as they were, and once the state is "in quotes" and no further quote
  follows, the rest of the line, commas included, goes into the current field; the
  tokenizer is total, so nothing fails.
\<close>

theorem tokenizer_quote_erasure:
  "(\<forall>f \<in> set (tokenize line). CHR 0x22 \<notin> set f) \<and>
   tokenize_loop flds current inQuotes (CHR 0x22 # CHR 0x22 # rest) =
     tokenize_loop flds current inQuotes rest \<and>
   (CHR 0x22 \<notin> set rest \<longrightarrow>
      tokenize_loop flds current True rest = flds @ [trim (current @ rest)] \<and>
      tokenize (CHR 0x22 # rest) = [trim rest])"
proof -
  have "\<forall>f \<in> set (tokenize line). CHR 0x22 \<notin> set f"
    unfolding tokenize_def using tokenize_loop_no_quote [of "[]" "[]" _ False line] by simp
  moreover have "CHR 0x22 \<notin> set rest \<longrightarrow> tokenize (CHR 0x22 # rest) = [trim rest]"
    unfolding tokenize_def using tokenize_loop_in_quotes [of rest "[]" "[]"] by simp
  ultimately show ?thesis
    using tokenize_loop_in_quotes [of rest flds current] by simp
qed

theorem tokenizer_quote_erasure_witness:
  "tokenize (''a,'' @ [CHR 0x22] @ ''b'' @ [CHR 0x22, CHR 0x22] @ ''c,d'') = [''a'', ''bc,d''] \<and>
   list_all (\<lambda>f. CHR 0x22 \<notin> set f)
     (tokenize (''a,'' @ [CHR 0x22] @ ''b'' @ [CHR 0x22, CHR 0x22] @ ''c,d'')) \<and>
   CHR 0x22 \<notin> set ''x,y '' \<and> tokenize (CHR 0x22 # ''x,y '') = [''x,y'']"
  using tokenizer_quote_erasure [of "''a,'' @ [CHR 0x22] @ ''b'' @ [CHR 0x22, CHR 0x22] @ ''c,d''" "[]" "[]" False "''x,y ''"]
  by (simp add: tokenize_def trim_def isWhiteSpace_def)

section \<open>The merge example\<close>

text \<open>
  C2 (merge example). The header line followed by the rows \<^verbatim>\<open>A1,Shirt,"M,L",true,10,R1,\<close> and
  \<^verbatim>\<open>A1,Shirt,XL,false,0,R2,\<close> parses to exactly one item, SKU A1 and title Shirt, whose
  variants are, in order, M (10, R1, in stock), L (10, R1, in stock) and XL (0, R2, not in
  stock), whatever identifiers are drawn.
\<close>

theorem merge_example:
  "parseCSV fresh
     (''SKU,TITLE,SIZE,IN STOCK,QUANTITY,LOCATION,IMAGE_URL'' @ [CHR 0x0A] @
      ''A1,Shirt,'' @ [CHR 0x22] @ ''M,L'' @ [CHR 0x22] @ '',true,10,R1,'' @ [CHR 0x0A] @
      ''A1,Shirt,XL,false,0,R2,'') =
   Inr [\<lparr>sku = ''A1'', title = ''Shirt'', imageUrl = None,
         variants =
           [\<lparr>id_v = fresh 0, size_v = ''M'', inStock = True, quantity = 10, location = ''R1''\<rparr>,
            \<lparr>id_v = fresh 1, size_v = ''L'', inStock = True, quantity = 10, location = ''R1''\<rparr>,
            \<lparr>id_v = fresh 2, size_v = ''XL'', inStock = False, quantity = 0, location = ''R2''\<rparr>],
         customFields = None\<rparr>]"
  by code_simp

section \<open>The quantity clamp\<close>

lemma handleUpdateQuantity_variant:
  assumes "item \<in> set (handleUpdateQuantity itemId variantId newQuantity prev)"
    and "id_i item = itemId" and "v \<in> set (variants item)" and "id_v v = variantId"
  shows "quantity v = max 0 newQuantity \<and> inStock v = (0 < max 0 newQuantity)"
proof -
  define g where "g = (\<lambda>v::sizeVariant. if id_v v = variantId
      then v\<lparr>quantity := max 0 newQuantity, inStock := (max 0 newQuantity > 0)\<rparr> else v)"
  define h where "h = (\<lambda>item::inventoryItem. if id_i item \<noteq> itemId then item
      else item\<lparr>variants := map g (variants item)\<rparr>)"
  have "handleUpdateQuantity itemId variantId newQuantity prev = map h prev"
    by (simp add: handleUpdateQuantity_def Let_def h_def g_def)
  with assms(1) obtain orig where o: "orig \<in> set prev" "item = h orig" by auto
  have "id_i (h orig) = id_i orig" by (simp add: h_def)
  with o assms(2) have "item = orig\<lparr>variants := map g (variants orig)\<rparr>" by (simp add: h_def)
  with assms(3) obtain v0 where v0: "v = g v0" by auto
  have "id_v (g v0) = id_v v0" by (simp add: g_def)
  with v0 assms(4) have "v = v0\<lparr>quantity := max 0 newQuantity, inStock := (max 0 newQuantity > 0)\<rparr>"
    by (simp add: g_def)
  then show ?thesis by simp
qed

text \<open>
  C4 (quantity clamp). After a quantity update with any integer, every variant that the
  update targets has the quantity \<open>max 0 n\<close>, which is not negative, and its stock flag
  says whether the quantity is positive. The +/- buttons and the edited number both go
  through this update, with the sum and with the parsed number.
\<close>

theorem quantity_clamp:
  "(\<forall>item \<in> set (handleUpdateQuantity itemId variantId newQuantity prev).
      id_i item = itemId \<longrightarrow>
      (\<forall>v \<in> set (variants item).
         id_v v = variantId \<longrightarrow>
         quantity v = max 0 newQuantity \<and> 0 \<le> quantity v \<and> inStock v = (0 < quantity v))) \<and>
   handleQuantityChange itemId variantId delta currentQuantity prev =
     handleUpdateQuantity itemId variantId (currentQuantity + delta) prev \<and>
   finishEditingQuantity itemId variantId tempQuantity prev =
     handleUpdateQuantity itemId variantId
       (case parseInt tempQuantity of None \<Rightarrow> 0 | Some q \<Rightarrow> q) prev"
proof (intro conjI ballI impI)
  fix item v
  assume "item \<in> set (handleUpdateQuantity itemId variantId newQuantity prev)"
    "id_i item = itemId" "v \<in> set (variants item)" "id_v v = variantId"
  from handleUpdateQuantity_variant [OF this]
  show "quantity v = max 0 newQuantity" "0 \<le> quantity v" "inStock v = (0 < quantity v)"
    by simp_all
qed (simp_all add: handleQuantityChange_def finishEditingQuantity_def)

theorem quantity_clamp_witness:
  "handleUpdateQuantity ''i1'' ''v1'' (- 3)
     [\<lparr>sku = ''A1'', title = ''Shirt'', imageUrl = None,
       variants = [\<lparr>id_v = ''v1'', size_v = ''M'', inStock = True, quantity = 4, location = ''R1''\<rparr>],
       customFields = None, id_i = ''i1''\<rparr>] =
     [\<lparr>sku = ''A1'', title = ''Shirt'', imageUrl = None,
       variants = [\<lparr>id_v = ''v1'', size_v = ''M'', inStock = False, quantity = 0, location = ''R1''\<rparr>],
       customFields = None, id_i = ''i1''\<rparr>] \<and>
   list_all (\<lambda>item. id_i item = ''i1'' \<and>
       list_all (\<lambda>v. id_v v = ''v1'' \<and> quantity v = max 0 (- 3) \<and> \<not> inStock v) (variants item))
     (handleUpdateQuantity ''i1'' ''v1'' (- 3)
       [\<lparr>sku = ''A1'', title = ''Shirt'', imageUrl = None,
         variants = [\<lparr>id_v = ''v1'', size_v = ''M'', inStock = True, quantity = 4, location = ''R1''\<rparr>],
         customFields = None, id_i = ''i1''\<rparr>])"
  using quantity_clamp [of "''i1''" "''v1''" "- 3"
     "[\<lparr>sku = ''A1'', title = ''Shirt'', imageUrl = None,
       variants = [\<lparr>id_v = ''v1'', size_v = ''M'', inStock = True, quantity = 4, location = ''R1''\<rparr>],
       customFields = None, id_i = ''i1''\<rparr>]" 0 0 "[]"]
  by (simp add: handleUpdateQuantity_def)

section \<open>The ensure-row operation\<close>

lemma upsert_existing: "tbl userId = Some existing \<Longrightarrow> upsert True userId row tbl = tbl"
  by (simp add: upsert_def)

lemma ensureUserRow_existing:
  "tbl userId = Some existing \<Longrightarrow> snd (ensureUserRow userId now reply tbl) = tbl"
  by (cases reply) (simp_all add: ensureUserRow_def upsert_existing)

lemma ensureUserRow_times_existing:
  "tbl userId = Some existing \<Longrightarrow> ensureUserRow_times userId nows tbl = tbl"
  by (induction nows) (simp_all add: ensureUserRow_existing)

text \<open>
  C9 (ensure-row idempotence). \<^verbatim>\<open>ensureUserRow\<close> inserts the empty row, stamped with the
  current time, when the identity has no row; when the identity has a row, whatever it
  holds, one call, two calls in succession and any number of calls leave the table as it
  was.
\<close>

theorem ensure_row_idempotence:
  "(tbl userId = None \<longrightarrow>
      ensureUserRow userId now Reply_ok tbl =
        (None, tbl(userId \<mapsto> \<lparr>inventory = [], custom_fields = [], updated_at = now\<rparr>))) \<and>
   (tbl userId = Some existing \<longrightarrow>
      snd (ensureUserRow userId now reply tbl) = tbl \<and>
      snd (ensureUserRow userId now' reply' (snd (ensureUserRow userId now reply tbl))) = tbl \<and>
      ensureUserRow_times userId nows tbl = tbl)"
  by (simp add: ensureUserRow_existing ensureUserRow_times_existing)
     (simp add: ensureUserRow_def upsert_def)

theorem ensure_row_idempotence_witness:
  "(Map.empty(''u1'' \<mapsto> \<lparr>inventory = [], custom_fields = [\<lparr>id_f = ''color'', label = ''Color'', type_f = TextField\<rparr>], updated_at = ''t0''\<rparr>)) ''u1'' =
      Some \<lparr>inventory = [], custom_fields = [\<lparr>id_f = ''color'', label = ''Color'', type_f = TextField\<rparr>], updated_at = ''t0''\<rparr> \<and>
   ensureUserRow_times ''u1'' [''t1'', ''t2'']
     (Map.empty(''u1'' \<mapsto> \<lparr>inventory = [], custom_fields = [\<lparr>id_f = ''color'', label = ''Color'', type_f = TextField\<rparr>], updated_at = ''t0''\<rparr>)) =
     Map.empty(''u1'' \<mapsto> \<lparr>inventory = [], custom_fields = [\<lparr>id_f = ''color'', label = ''Color'', type_f = TextField\<rparr>], updated_at = ''t0''\<rparr>) \<and>
   (Map.empty :: string \<rightharpoonup> remoteRow) ''u2'' = None \<and>
   ensureUserRow ''u2'' ''t1'' Reply_ok Map.empty =
     (None, Map.empty(''u2'' \<mapsto> \<lparr>inventory = [], custom_fields = [], updated_at = ''t1''\<rparr>))"
  using ensure_row_idempotence [of "Map.empty(''u1'' \<mapsto> \<lparr>inventory = [], custom_fields = [\<lparr>id_f = ''color'', label = ''Color'', type_f = TextField\<rparr>], updated_at = ''t0''\<rparr>)" "''u1''" "''t1''"
      "\<lparr>inventory = [], custom_fields = [\<lparr>id_f = ''color'', label = ''Color'', type_f = TextField\<rparr>], updated_at = ''t0''\<rparr>" Reply_ok "''t2''" Reply_ok "[''t1'', ''t2'']"]
    ensure_row_idempotence [of Map.empty "''u2''" "''t1''"]
  by (simp add: ensureUserRow_def upsert_def)

section \<open>The save scheduler: gating, failure, coalescing\<close>

lemma scheduler_gate:
  "\<not> hasLoaded st \<or> noUserId (user_c cl) \<Longrightarrow>
   scheduleSave cl ms st = st \<and> saveNow cl now reply st = st"
  by (auto simp: scheduleSave_def saveNow_def)

lemma schedulerStep_gate: "\<not> hasLoaded st \<Longrightarrow> schedulerStep st c = st"
  by (cases c) (simp_all add: scheduler_gate)

lemma schedulerSteps_gate: "\<not> hasLoaded st \<Longrightarrow> foldl schedulerStep st calls = st"
  by (induction calls) (simp_all add: schedulerStep_gate)

text \<open>
  C8 (load gating). While \<^verbatim>\<open>hasLoadedRef\<close> is false, and also while there is no signed-in
  user, every call of the scheduler, debounced (\<^verbatim>\<open>scheduleSave\<close>) or immediate
  (\<^verbatim>\<open>saveNow\<close>, from a handler or from a flush trigger), and every run of such calls,
  returns the state it was given: no timer is armed, no save call is made and the remote
  table is not written.
\<close>

theorem load_gating:
  "(\<not> hasLoaded st \<or> noUserId (user_c cl) \<longrightarrow>
      scheduleSave cl ms st = st \<and> saveNow cl now reply st = st) \<and>
   (\<not> hasLoaded st \<or> noUserId (user st) \<longrightarrow> flushNow now reply st = st) \<and>
   (\<not> hasLoaded st \<longrightarrow> foldl schedulerStep st calls = st)"
  using scheduler_gate [of st cl ms now reply] scheduler_gate [of st "closureOf st" ms now reply]
  by (simp add: schedulerSteps_gate flushNow_def closureOf_def)

theorem load_gating_witness:
  "\<not> hasLoaded (app0\<lparr>hasLoaded := False\<rparr>) \<and>
   foldl schedulerStep (app0\<lparr>hasLoaded := False\<rparr>)
     [ScheduleSave (closureOf app0) 250, SaveNow (closureOf app0) ''t1'' Reply_ok] =
     app0\<lparr>hasLoaded := False\<rparr> \<and>
   noUserId (user (app0\<lparr>user := None\<rparr>)) \<and>
   flushNow ''t1'' Reply_ok (app0\<lparr>user := None\<rparr>) = app0\<lparr>user := None\<rparr> \<and>
   scheduleSave (closureOf (app0\<lparr>user := None\<rparr>)) 300 (app0\<lparr>user := None\<rparr>) = app0\<lparr>user := None\<rparr>"
  using load_gating [of "app0\<lparr>hasLoaded := False\<rparr>" "closureOf app0" 250 "''t1''" Reply_ok
      "[ScheduleSave (closureOf app0) 250, SaveNow (closureOf app0) ''t1'' Reply_ok]"]
    load_gating [of "app0\<lparr>user := None\<rparr>" "closureOf (app0\<lparr>user := None\<rparr>)" 300 "''t1''" Reply_ok "[]"]
  by (simp add: app0_def noUserId_def closureOf_def)






lemma debouncedMutation_loaded:
  assumes "\<not> noUserId (user st)" "hasLoaded st"
  shows "user (debouncedMutation st m) = user st \<and> hasLoaded (debouncedMutation st m) \<and>
    customFields_s (debouncedMutation st m) = customFields_s st \<and>
    items (debouncedMutation st m) = fst m (items st) \<and>
    dirty (debouncedMutation st m) \<and>
    saveTimer (debouncedMutation st m) = Some (300, closureOf (debouncedMutation st m)) \<and>
    saveCalls (debouncedMutation st m) = saveCalls st \<and>
    remoteTable (debouncedMutation st m) = remoteTable st"
  using assms
  by (simp add: debouncedMutation_def dataEffect_def scheduleSave_def writeCache_def closureOf_def Let_def)

lemma debouncedMutations_loaded:
  assumes "\<not> noUserId (user st)" "hasLoaded st"
  shows "user (foldl debouncedMutation st muts) = user st \<and>
    hasLoaded (foldl debouncedMutation st muts) \<and>
    items (foldl debouncedMutation st muts) = foldl (\<lambda>its m. fst m its) (items st) muts \<and>
    saveCalls (foldl debouncedMutation st muts) = saveCalls st \<and>
    remoteTable (foldl debouncedMutation st muts) = remoteTable st \<and>
    (muts \<noteq> [] \<longrightarrow> dirty (foldl debouncedMutation st muts) \<and>
       saveTimer (foldl debouncedMutation st muts) =
         Some (300, closureOf (foldl debouncedMutation st muts)))"
proof (induction muts rule: rev_induct)
  case Nil
  show ?case using assms by simp
next
  case (snoc m muts)
  let ?s = "foldl debouncedMutation st muts"
  have u: "\<not> noUserId (user ?s)" and l: "hasLoaded ?s" using snoc assms by simp_all
  from debouncedMutation_loaded [OF u l, of m] snoc show ?case by simp
qed

lemma timerExpires_pending:
  assumes "\<not> noUserId (user_c cl)" "hasLoaded st" "dirty st" "saveTimer st = Some (ms, cl)"
  shows "saveCalls (timerExpires now st) = saveCalls st @ [cl] \<and>
    saveTimer (timerExpires now st) = None"
  using assms by (simp add: timerExpires_def saveNow_start_def)

text \<open>What holds: a run of debounced mutations makes no save call, and the expiry that
  follows it at once makes one call, with the items after the last mutation.\<close>

lemma coalescing_without_reply:
  assumes "\<not> noUserId (user st)" "hasLoaded st" "muts \<noteq> []"
  shows "saveCalls (foldl debouncedMutation st muts) = saveCalls st \<and>
    remoteTable (foldl debouncedMutation st muts) = remoteTable st \<and>
    items (foldl debouncedMutation st muts) = foldl (\<lambda>its m. fst m its) (items st) muts \<and>
    saveCalls (timerExpires now (foldl debouncedMutation st muts)) =
      saveCalls st @ [\<lparr>user_c = user st, items_c = foldl (\<lambda>its m. fst m its) (items st) muts,
                        customFields_c = customFields_s (foldl debouncedMutation st muts)\<rparr>]"
proof -
  let ?s = "foldl debouncedMutation st muts"
  note inv = debouncedMutations_loaded [OF assms(1,2), of muts]
  have u: "\<not> noUserId (user_c (closureOf ?s))" using inv assms(1) by (simp add: closureOf_def)
  have p: "saveTimer ?s = Some (300, closureOf ?s)" and d: "dirty ?s" and l: "hasLoaded ?s"
    using inv assms(3) by simp_all
  note f = timerExpires_pending [OF u l d p, of now]
  have c: "closureOf ?s = \<lparr>user_c = user st, items_c = foldl (\<lambda>its m. fst m its) (items st) muts,
      customFields_c = customFields_s ?s\<rparr>"
    using inv by (simp add: closureOf_def)
  show ?thesis using inv f c by simp
qed

text \<open>
  C6 (debounce coalescing). One mutation in its debounce window is to give exactly one
  save call, with the snapshot after it, when the timer fires. The scheduler loses the
  mutation when an earlier save is in flight. The session holds a shirt with 4 in stock.
  The quantity is set to 5 and the timer expires: a save with 5 is in flight. The
  quantity is set to 6, which marks the session dirty and arms the timer. The reply to
  the save with 5 arrives and clears the dirty flag. The timer expires and its
  \<^verbatim>\<open>saveNow\<close> returns at the dirty guard: the only save call ever made carries 5, the
  table holds 5, the inventory holds 6, and the session counts as saved.
\<close>

theorem save_in_flight_drops_mutation:
  "items (foldl step app1
     [Mutates (handleUpdateQuantity ''i1'' ''v1'' 5, ''t1''), TimerExpires ''t2'',
      Mutates (handleUpdateQuantity ''i1'' ''v1'' 6, ''t3''), Resolves 0 Reply_ok,
      TimerExpires ''t4'']) = [shirt 6] \<and>
   saveCalls (foldl step app1
     [Mutates (handleUpdateQuantity ''i1'' ''v1'' 5, ''t1''), TimerExpires ''t2'',
      Mutates (handleUpdateQuantity ''i1'' ''v1'' 6, ''t3''), Resolves 0 Reply_ok,
      TimerExpires ''t4'']) =
     [\<lparr>user_c = Some ''u1'', items_c = [shirt 5], customFields_c = []\<rparr>] \<and>
   remoteTable (foldl step app1
     [Mutates (handleUpdateQuantity ''i1'' ''v1'' 5, ''t1''), TimerExpires ''t2'',
      Mutates (handleUpdateQuantity ''i1'' ''v1'' 6, ''t3''), Resolves 0 Reply_ok,
      TimerExpires ''t4'']) ''u1'' =
     Some \<lparr>inventory = [shirt 5], custom_fields = [], updated_at = ''t2''\<rparr> \<and>
   dirty (foldl step app1
     [Mutates (handleUpdateQuantity ''i1'' ''v1'' 5, ''t1''), TimerExpires ''t2'',
      Mutates (handleUpdateQuantity ''i1'' ''v1'' 6, ''t3''), Resolves 0 Reply_ok,
      TimerExpires ''t4'']) = False \<and>
   saveTimer (foldl step app1
     [Mutates (handleUpdateQuantity ''i1'' ''v1'' 5, ''t1''), TimerExpires ''t2'',
      Mutates (handleUpdateQuantity ''i1'' ''v1'' 6, ''t3''), Resolves 0 Reply_ok,
      TimerExpires ''t4'']) = None \<and>
   inFlight (foldl step app1
     [Mutates (handleUpdateQuantity ''i1'' ''v1'' 5, ''t1''), TimerExpires ''t2'',
      Mutates (handleUpdateQuantity ''i1'' ''v1'' 6, ''t3''), Resolves 0 Reply_ok,
      TimerExpires ''t4'']) = []"
  by (simp add: app1_def app0_def shirt_def noUserId_def debouncedMutation_def dataEffect_def
      scheduleSave_def writeCache_def closureOf_def handleUpdateQuantity_def timerExpires_def
      saveNow_start_def saveNow_resolve_def saveInventoryData_def upsert_def Let_def)

section \<open>The variant floor\<close>

text \<open>What holds: the form submits no item without a variant, and a delete-variant on
  items with at most one variant changes nothing.\<close>

lemma handleSubmit_variants:
  "handleSubmit sku0 title0 imageUrl0 variants0 editingItem newId = Some d \<Longrightarrow> variants d \<noteq> []"
  by (auto simp: handleSubmit_def Let_def enumerate_eq_zip split: if_splits)

lemma handleDeleteVariant_sole:
  "\<forall>item \<in> set prev. length (variants item) \<le> 1 \<Longrightarrow>
   handleDeleteVariant itemId variantId prev = prev"
  by (simp add: handleDeleteVariant_def map_idI)

text \<open>
  C1 (variant floor). Every item is to keep at least one variant, on every creation path.
  The import does not keep the floor: a data row whose SIZE column is empty has seven
  fields, so it is not skipped; its list of sizes is empty, and it creates an item with
  no variant, which the import then adds to the inventory.
\<close>

theorem import_creates_item_without_variants:
  "importFile fresh newId
     (''SKU,TITLE,SIZE,IN STOCK,QUANTITY,LOCATION,IMAGE_URL'' @ [CHR 0x0A] @
      ''A1,Shirt,,true,10,R1,'') [] =
   ([\<lparr>sku = ''A1'', title = ''Shirt'', imageUrl = None, variants = [], customFields = None,
      id_i = newId 0\<rparr>], None)"
  by code_simp

section \<open>The import error policy\<close>

lemma processRow_short:
  "length (tokenize line) < 6 \<Longrightarrow>
   processRow fresh st (index, line) = st\<lparr>warned := warned st @ [index + 2]\<rparr>"
  by (simp add: processRow_def)

lemma processRow_core:
  assumes "drawn st = drawn st'" "itemsMap st = itemsMap st'"
  shows "drawn (processRow fresh st (i, line)) = drawn (processRow fresh st' (j, line)) \<and>
    itemsMap (processRow fresh st (i, line)) = itemsMap (processRow fresh st' (j, line))"
  using assms by (simp add: processRow_def Let_def split: option.splits)

lemma foldl_processRow_filter:
  assumes "drawn st = drawn st'" "itemsMap st = itemsMap st'"
  shows "drawn (foldl (processRow fresh) st (enumerate n dataLines)) =
      drawn (foldl (processRow fresh) st'
        (enumerate n' (filter (\<lambda>l. 6 \<le> length (tokenize l)) dataLines))) \<and>
    itemsMap (foldl (processRow fresh) st (enumerate n dataLines)) =
      itemsMap (foldl (processRow fresh) st'
        (enumerate n' (filter (\<lambda>l. 6 \<le> length (tokenize l)) dataLines)))"
  using assms
proof (induction dataLines arbitrary: st st' n n')
  case Nil
  then show ?case by simp
next
  case (Cons l ls)
  show ?case
  proof (cases "6 \<le> length (tokenize l)")
    case True
    from processRow_core [OF Cons.prems, of fresh n l n']
    have "drawn (processRow fresh st (n, l)) = drawn (processRow fresh st' (n', l))"
      "itemsMap (processRow fresh st (n, l)) = itemsMap (processRow fresh st' (n', l))"
      by simp_all
    from Cons.IH [OF this, of "Suc n" "Suc n'"] True show ?thesis by simp
  next
    case False
    then have s: "processRow fresh st (n, l) = st\<lparr>warned := warned st @ [n + 2]\<rparr>"
      by (simp add: processRow_short)
    have "drawn (st\<lparr>warned := warned st @ [n + 2]\<rparr>) = drawn st'"
      "itemsMap (st\<lparr>warned := warned st @ [n + 2]\<rparr>) = itemsMap st'"
      using Cons.prems by simp_all
    from Cons.IH [OF this, of "Suc n" n'] False s show ?thesis by simp
  qed
qed

lemma parseLines_filter:
  "itemsMap (parseLines fresh dataLines) =
   itemsMap (parseLines fresh (filter (\<lambda>l. 6 \<le> length (tokenize l)) dataLines))"
  unfolding parseLines_def using foldl_processRow_filter [of _ _ fresh 0 dataLines 0] by simp

lemma parseCSV_too_short:
  "length (filter (\<lambda>line. trim line \<noteq> []) (js_split CHR 0x0A [] text)) < 2 \<Longrightarrow>
   parseCSV fresh text = Inl EmptyOrMalformed"
  by (simp add: parseCSV_def parseCSV_run_def)

text \<open>
  C5 (import error policy), as the code has it. The claim's "retained count" does not
  exist: two texts with one and with two skipped rows give the same import, so nothing
  that the import returns or stores tells how many rows were skipped.
\<close>

theorem retained_count_counterexample:
  "skippedRows (''SKU,TITLE,SIZE,IN STOCK,QUANTITY,LOCATION,IMAGE_URL'' @ [CHR 0x0A] @
      ''A1,Shirt,M,true,1,R1,'' @ [CHR 0x0A] @ ''A2,Hat'') = 1 \<and>
   skippedRows (''SKU,TITLE,SIZE,IN STOCK,QUANTITY,LOCATION,IMAGE_URL'' @ [CHR 0x0A] @
      ''A1,Shirt,M,true,1,R1,'' @ [CHR 0x0A] @ ''A2,Hat'' @ [CHR 0x0A] @ ''A3,Sock'') = 2 \<and>
   importFile variantIds itemIds (''SKU,TITLE,SIZE,IN STOCK,QUANTITY,LOCATION,IMAGE_URL'' @ [CHR 0x0A] @
      ''A1,Shirt,M,true,1,R1,'' @ [CHR 0x0A] @ ''A2,Hat'') [] =
   importFile variantIds itemIds (''SKU,TITLE,SIZE,IN STOCK,QUANTITY,LOCATION,IMAGE_URL'' @ [CHR 0x0A] @
      ''A1,Shirt,M,true,1,R1,'' @ [CHR 0x0A] @ ''A2,Hat'' @ [CHR 0x0A] @ ''A3,Sock'') []"
  by code_simp

text \<open>
  C5, amended. (a) A text with fewer than two non-blank lines is refused as empty or
  malformed and the inventory is unchanged. (b) A data row with fewer than 6 fields only
  adds a console warning with its row number (index + 2): it changes neither the map of
  items nor the identifiers drawn, and the items parsed are those of the text without
  such rows. (c) When the parse returns no item, the import is refused as "no valid
  data" and the inventory is unchanged.
\<close>

theorem import_error_policy:
  "(length (filter (\<lambda>line. trim line \<noteq> []) (js_split CHR 0x0A [] text)) < 2 \<longrightarrow>
      parseCSV fresh text = Inl EmptyOrMalformed \<and>
      importFile fresh newId text prev = (prev, Some EmptyOrMalformed)) \<and>
   (length (tokenize line) < 6 \<longrightarrow>
      processRow fresh st (index, line) = st\<lparr>warned := warned st @ [index + 2]\<rparr>) \<and>
   itemsMap (parseLines fresh dataLines) =
     itemsMap (parseLines fresh (filter (\<lambda>l. 6 \<le> length (tokenize l)) dataLines)) \<and>
   (parseCSV fresh text = Inr [] \<longrightarrow>
      handleImport fresh (Some text) = Inl NoValidData \<and>
      importFile fresh newId text prev = (prev, Some NoValidData))"
proof -
  have "parseCSV fresh text = Inl EmptyOrMalformed \<Longrightarrow>
      importFile fresh newId text prev = (prev, Some EmptyOrMalformed)"
    by (simp add: importFile_def handleImport_def)
  moreover have "parseCSV fresh text = Inr [] \<Longrightarrow>
      handleImport fresh (Some text) = Inl NoValidData \<and>
      importFile fresh newId text prev = (prev, Some NoValidData)"
    by (simp add: importFile_def handleImport_def)
  ultimately show ?thesis
    using parseCSV_too_short [of "text" fresh] processRow_short [of line fresh st index]
      parseLines_filter [of fresh dataLines]
    by blast
qed

theorem import_error_policy_witness:
  "length (filter (\<lambda>line. trim line \<noteq> []) (js_split CHR 0x0A [] ''SKU,TITLE'')) < 2 \<and>
   importFile variantIds itemIds ''SKU,TITLE'' [] = ([], Some EmptyOrMalformed) \<and>
   length (tokenize ''A1,Shirt,M,true'') < 6 \<and>
   processRow variantIds \<lparr>warned = [], drawn = 0, itemsMap = []\<rparr> (0, ''A1,Shirt,M,true'') =
     \<lparr>warned = [2], drawn = 0, itemsMap = []\<rparr> \<and>
   parseCSV variantIds (''SKU,TITLE,SIZE,IN STOCK,QUANTITY,LOCATION,IMAGE_URL'' @ [CHR 0x0A] @
      ''A1,Shirt,M,true'') = Inr [] \<and>
   importFile variantIds itemIds (''SKU,TITLE,SIZE,IN STOCK,QUANTITY,LOCATION,IMAGE_URL'' @
      [CHR 0x0A] @ ''A1,Shirt,M,true'') [] = ([], Some NoValidData)"
proof -
  have h: "parseCSV variantIds (''SKU,TITLE,SIZE,IN STOCK,QUANTITY,LOCATION,IMAGE_URL'' @
      [CHR 0x0A] @ ''A1,Shirt,M,true'') = Inr []"
    by code_simp
  have "importFile variantIds itemIds (''SKU,TITLE,SIZE,IN STOCK,QUANTITY,LOCATION,IMAGE_URL'' @
      [CHR 0x0A] @ ''A1,Shirt,M,true'') [] = ([], Some NoValidData)"
    using import_error_policy [of "''SKU,TITLE,SIZE,IN STOCK,QUANTITY,LOCATION,IMAGE_URL'' @
      [CHR 0x0A] @ ''A1,Shirt,M,true''" variantIds itemIds "[]" "[]"
      "\<lparr>warned = [], drawn = 0, itemsMap = []\<rparr>" 0 "[]"] h
    by blast
  then show ?thesis
    using h import_error_policy [of "''SKU,TITLE''" variantIds itemIds "[]" "''A1,Shirt,M,true''"
      "\<lparr>warned = [], drawn = 0, itemsMap = []\<rparr>" 0 "[]"]
    by (simp add: tokenize_def)
qed

section \<open>The round trip of export and import\<close>

lemma dropWhile_keeps: "x \<in> set xs \<Longrightarrow> \<not> P x \<Longrightarrow> x \<in> set (dropWhile P xs)"
  by (induction xs) auto

lemma trim_nonblank:
  assumes "c \<in> set s" "\<not> isWhiteSpace c"
  shows "trim s \<noteq> []"
proof -
  have "c \<in> set (rev (dropWhile isWhiteSpace s))"
    using dropWhile_keeps [of c s isWhiteSpace] assms by simp
  then have "c \<in> set (dropWhile isWhiteSpace (rev (dropWhile isWhiteSpace s)))"
    using dropWhile_keeps [of c "rev (dropWhile isWhiteSpace s)" isWhiteSpace] assms(2) by simp
  then have "dropWhile isWhiteSpace (rev (dropWhile isWhiteSpace s)) \<noteq> []"
    by (cases "dropWhile isWhiteSpace (rev (dropWhile isWhiteSpace s))") simp_all
  then show ?thesis unfolding trim_def by simp
qed

lemma dropWhile_none: "\<forall>x \<in> set xs. \<not> P x \<Longrightarrow> dropWhile P xs = xs"
  by (cases xs) auto

lemma trim_no_space: "\<forall>c \<in> set s. \<not> isWhiteSpace c \<Longrightarrow> trim s = s"
  by (simp add: trim_def dropWhile_none)

lemma js_split_no_sep: "sep \<notin> set x \<Longrightarrow> js_split sep cur x = [cur @ x]"
  by (induction x arbitrary: cur) auto

lemma js_split_piece:
  "sep \<notin> set x \<Longrightarrow> js_split sep cur (x @ sep # rest) = (cur @ x) # js_split sep [] rest"
  by (induction x arbitrary: cur) auto

lemma js_split_join:
  "xs \<noteq> [] \<Longrightarrow> \<forall>x \<in> set xs. sep \<notin> set x \<Longrightarrow> js_split sep [] (js_join [sep] xs) = xs"
proof (induction "[sep]" xs rule: js_join.induct)
  case 1
  then show ?case by simp
next
  case (2 x)
  then show ?case by (simp add: js_split_no_sep)
next
  case (3 x y ys)
  have "js_split sep [] (x @ sep # js_join [sep] (y # ys)) = x # js_split sep [] (js_join [sep] (y # ys))"
    using 3(3) js_split_piece [of sep x "[]"] by simp
  with 3 show ?case by simp
qed

lemma tokenize_loop_field:
  "CHR '','' \<notin> set f \<Longrightarrow> CHR 0x22 \<notin> set f \<Longrightarrow>
   tokenize_loop flds cur False (f @ CHR '','' # rest) =
     tokenize_loop (flds @ [trim (cur @ f)]) [] False rest"
  by (induction f arbitrary: cur) auto

lemma tokenize_loop_prefix:
  "tokenize_loop flds cur q s = flds @ tokenize_loop [] cur q s"
proof (induction s arbitrary: flds cur q)
  case Nil
  show ?case by simp
next
  case (Cons c s)
  show ?case
  proof (cases "c = CHR 0x22")
    case True
    then show ?thesis using Cons [of flds cur "\<not> q"] by simp
  next
    case False
    show ?thesis
    proof (cases "c = CHR '','' \<and> \<not> q")
      case True
      then show ?thesis
        using False Cons [of "flds @ [trim cur]" "[]" q] Cons [of "[trim cur]" "[]" q] by simp
    next
      case F: False
      then show ?thesis using False Cons [of flds "cur @ [c]" q] by auto
    qed
  qed
qed

lemma tokenize_loop_nonempty: "tokenize_loop flds cur q s \<noteq> []"
  by (induction s arbitrary: flds cur q) auto

lemma tokenize_six:
  assumes "\<forall>f \<in> set [a, b, c, d, e, g]. CHR '','' \<notin> set f \<and> CHR 0x22 \<notin> set f"
  shows "\<exists>r rs. tokenize (a @ '','' @ b @ '','' @ c @ '','' @ d @ '','' @ e @ '','' @ g @ '','' @ h) =
    [trim a, trim b, trim c, trim d, trim e, trim g] @ r # rs"
proof -
  have "tokenize (a @ '','' @ b @ '','' @ c @ '','' @ d @ '','' @ e @ '','' @ g @ '','' @ h) =
      tokenize_loop [trim a, trim b, trim c, trim d, trim e, trim g] [] False h"
    using assms by (simp add: tokenize_def tokenize_loop_field)
  also have "\<dots> = [trim a, trim b, trim c, trim d, trim e, trim g] @ tokenize_loop [] [] False h"
    by (rule tokenize_loop_prefix)
  finally show ?thesis
    using tokenize_loop_nonempty [of "[]" "[]" False h] by (cases "tokenize_loop [] [] False h") auto
qed

lemma digitValue_decimal: "d < 10 \<Longrightarrow> digitValue (char_of (48 + d)) = Some d"
  by (simp add: digitValue_def Let_def)

lemma of_char_decimal: "d < 10 \<Longrightarrow> (of_char (char_of (48 + d :: nat)) :: nat) = 48 + d"
  by simp

lemma natDigits_chars:
  "c \<in> set (natDigits n) \<Longrightarrow> 48 \<le> (of_char c :: nat) \<and> (of_char c :: nat) \<le> 57"
proof (induction n rule: natDigits.induct)
  case (1 n)
  show ?case
  proof (cases "n < 10")
    case True
    with 1(2) have "c = char_of (48 + n)" by (simp add: natDigits.simps [of n])
    with True show ?thesis using of_char_decimal [of n] by simp
  next
    case False
    with 1(2) have "c \<in> set (natDigits (n div 10)) \<or> c = char_of (48 + n mod 10)"
      by (auto simp: natDigits.simps [of n])
    then show ?thesis
    proof
      assume "c \<in> set (natDigits (n div 10))"
      with 1(1) False show ?thesis by simp
    next
      assume "c = char_of (48 + n mod 10)"
      then show ?thesis using of_char_decimal [of "n mod 10"] by simp
    qed
  qed
qed

lemma natDigits_nonempty: "natDigits n \<noteq> []"
  by (simp add: natDigits.simps [of n])

lemma digit_char_props:
  assumes "48 \<le> (of_char c :: nat) \<and> (of_char c :: nat) \<le> 57"
  shows "isRadixDigit 10 c" "\<not> isWhiteSpace c" "c \<noteq> CHR ''-''" "c \<noteq> CHR ''+''" "c \<noteq> CHR ''x''"
    "c \<noteq> CHR ''X''" "c \<noteq> CHR '',''" "c \<noteq> CHR 0x22" "c \<noteq> CHR 0x0A" "digitValue c \<noteq> None"
proof -
  show "isRadixDigit 10 c" "digitValue c \<noteq> None"
    using assms by (auto simp: isRadixDigit_def digitValue_def Let_def)
  have ne: "\<And>k. (of_char k :: nat) < 48 \<or> 57 < (of_char k :: nat) \<Longrightarrow> c \<noteq> k"
    using assms by auto
  show "c \<noteq> CHR ''-''" "c \<noteq> CHR ''+''" "c \<noteq> CHR ''x''" "c \<noteq> CHR ''X''"
    "c \<noteq> CHR '',''" "c \<noteq> CHR 0x22" "c \<noteq> CHR 0x0A"
    by (rule ne, simp)+
  have "c \<noteq> CHR 0x09" "c \<noteq> CHR 0x0A" "c \<noteq> CHR 0x0B" "c \<noteq> CHR 0x0C" "c \<noteq> CHR 0x0D"
    "c \<noteq> CHR 0x20" "c \<noteq> CHR 0xA0"
    by (rule ne, simp)+
  then show "\<not> isWhiteSpace c" by (simp add: isWhiteSpace_def)
qed

lemma digitsValue_append:
  "\<forall>c \<in> set xs. digitValue c \<noteq> None \<Longrightarrow>
   digitsValue radix acc (xs @ ys) = digitsValue radix (digitsValue radix acc xs) ys"
  by (induction xs arbitrary: acc) auto

lemma digitsValue_natDigits: "digitsValue 10 0 (natDigits n) = int n"
proof (induction n rule: natDigits.induct)
  case (1 n)
  show ?case
  proof (cases "n < 10")
    case True
    then show ?thesis by (simp add: natDigits.simps [of n] digitValue_decimal)
  next
    case False
    have v: "\<forall>c \<in> set (natDigits (n div 10)). digitValue c \<noteq> None"
      using natDigits_chars digit_char_props(10) by blast
    have "digitsValue 10 0 (natDigits n) =
        digitsValue 10 (digitsValue 10 0 (natDigits (n div 10))) [char_of (48 + n mod 10)]"
      using False by (simp add: natDigits.simps [of n] digitsValue_append [OF v])
    also have "\<dots> = int (n div 10) * 10 + int (n mod 10)"
      using 1 False by (simp add: digitValue_decimal)
    also have "\<dots> = int n" by presburger
    finally show ?thesis .
  qed
qed

lemma parseInt_natDigits: "parseInt (natDigits n) = Some (int n)"
proof -
  let ?s = "natDigits n"
  obtain c cs where s: "?s = c # cs" using natDigits_nonempty [of n] by (cases ?s) auto
  have all: "\<forall>x \<in> set ?s. 48 \<le> (of_char x :: nat) \<and> (of_char x :: nat) \<le> 57"
    using natDigits_chars by blast
  have c: "48 \<le> (of_char c :: nat) \<and> (of_char c :: nat) \<le> 57" using all s by simp
  have ws: "dropWhile isWhiteSpace ?s = ?s"
    using s digit_char_props(2) [OF c] by simp
  have nx: "CHR ''x'' \<notin> set ?s" "CHR ''X'' \<notin> set ?s"
    using all digit_char_props(5,6) by blast+
  have hex: "take 2 ?s \<noteq> ''0x''" "take 2 ?s \<noteq> ''0X''"
  proof -
    show "take 2 ?s \<noteq> ''0x''"
    proof
      assume "take 2 ?s = ''0x''"
      then have "CHR ''x'' \<in> set (take 2 ?s)" by simp
      then show False using nx(1) by (meson in_set_takeD)
    qed
    show "take 2 ?s \<noteq> ''0X''"
    proof
      assume "take 2 ?s = ''0X''"
      then have "CHR ''X'' \<in> set (take 2 ?s)" by simp
      then show False using nx(2) by (meson in_set_takeD)
    qed
  qed
  have tw: "takeWhile (isRadixDigit 10) ?s = ?s"
    using all digit_char_props(1) by (simp add: takeWhile_eq_all_conv)
  have sgn: "c \<noteq> CHR ''-''" "c \<noteq> CHR ''+''" using digit_char_props(3,4) [OF c] by simp_all
  have e2: "(case ?s of [] \<Rightarrow> False | c # x \<Rightarrow> c = CHR ''-'') = False"
    using sgn by (simp add: s)
  have e3: "(case ?s of [] \<Rightarrow> ?s | c # r \<Rightarrow> if c = CHR ''-'' \<or> c = CHR ''+'' then r else ?s) = ?s"
    using sgn by (simp add: s)
  have e4: "(take 2 ?s = ''0x'' \<or> take 2 ?s = ''0X'') = False"
    using hex by simp
  have "parseInt ?s = (if ?s = [] then None else Some ((if False then - 1 else 1) * digitsValue 10 0 ?s))"
    by (simp only: parseInt_def Let_def ws e2 e3 e4 if_False tw)
  then show ?thesis by (simp add: digitsValue_natDigits natDigits_nonempty)
qed

lemma parseInt_negative: "parseInt (CHR ''-'' # natDigits m) = Some (- int m)"
proof -
  let ?s = "natDigits m"
  have all: "\<forall>x \<in> set ?s. 48 \<le> (of_char x :: nat) \<and> (of_char x :: nat) \<le> 57"
    using natDigits_chars by blast
  have ws: "dropWhile isWhiteSpace (CHR ''-'' # ?s) = CHR ''-'' # ?s"
    by (simp add: isWhiteSpace_def)
  have nx: "CHR ''x'' \<notin> set ?s" "CHR ''X'' \<notin> set ?s"
    using all digit_char_props(5,6) by blast+
  have "take 2 ?s \<noteq> ''0x''"
  proof
    assume "take 2 ?s = ''0x''"
    then have "CHR ''x'' \<in> set (take 2 ?s)" by simp
    then show False using nx(1) by (meson in_set_takeD)
  qed
  moreover have "take 2 ?s \<noteq> ''0X''"
  proof
    assume "take 2 ?s = ''0X''"
    then have "CHR ''X'' \<in> set (take 2 ?s)" by simp
    then show False using nx(2) by (meson in_set_takeD)
  qed
  ultimately have e4: "(take 2 ?s = ''0x'' \<or> take 2 ?s = ''0X'') = False" by simp
  have tw: "takeWhile (isRadixDigit 10) ?s = ?s"
    using all digit_char_props(1) by (simp add: takeWhile_eq_all_conv)
  have e2: "(case CHR ''-'' # ?s of [] \<Rightarrow> False | c # x \<Rightarrow> c = CHR ''-'') = True" by simp
  have e3: "(case CHR ''-'' # ?s of [] \<Rightarrow> CHR ''-'' # ?s
      | c # r \<Rightarrow> if c = CHR ''-'' \<or> c = CHR ''+'' then r else CHR ''-'' # ?s) = ?s" by simp
  have "parseInt (CHR ''-'' # ?s) =
      (if ?s = [] then None else Some ((if True then - 1 else 1) * digitsValue 10 0 ?s))"
    by (simp only: parseInt_def Let_def ws e2 e3 e4 if_False tw)
  then show ?thesis by (simp add: digitsValue_natDigits natDigits_nonempty)
qed

lemma parseInt_numberToString: "parseInt (numberToString q) = Some q"
  by (simp add: numberToString_def parseInt_natDigits parseInt_negative)

lemma numberToString_chars:
  "c \<in> set (numberToString q) \<Longrightarrow>
   c \<noteq> CHR '','' \<and> c \<noteq> CHR 0x22 \<and> c \<noteq> CHR 0x0A \<and> \<not> isWhiteSpace c"
proof -
  assume "c \<in> set (numberToString q)"
  then have "c = CHR ''-'' \<or> (48 \<le> (of_char c :: nat) \<and> (of_char c :: nat) \<le> 57)"
    using natDigits_chars by (auto simp: numberToString_def split: if_splits)
  then show ?thesis
  proof
    assume "c = CHR ''-''"
    then show ?thesis by (simp add: isWhiteSpace_def)
  next
    assume "48 \<le> (of_char c :: nat) \<and> (of_char c :: nat) \<le> 57"
    from digit_char_props [OF this] show ?thesis by simp
  qed
qed

lemma trim_numberToString: "trim (numberToString q) = numberToString q"
  using numberToString_chars by (simp add: trim_no_space)

lemma booleanToString_props:
  "trim (booleanToString b) = booleanToString b"
  "(toLowerCase (booleanToString b) = ''true'' \<or> booleanToString b = ''1'') = b"
  "CHR '','' \<notin> set (booleanToString b)" "CHR 0x22 \<notin> set (booleanToString b)"
  "CHR 0x0A \<notin> set (booleanToString b)"
  by (cases b; simp add: booleanToString_def trim_def isWhiteSpace_def toLowerCase_def
      toLowerCase_char_def Let_def)+

lemma numberToString_plain:
  "CHR '','' \<notin> set (numberToString q)" "CHR 0x22 \<notin> set (numberToString q)"
  "CHR 0x0A \<notin> set (numberToString q)"
  using numberToString_chars by blast+

lemma processRow_exportRow:
  assumes ex: "exportable item" and v: "v \<in> set (variants item)"
  shows "\<exists>img ttl. processRow fresh st (i, exportRow item v) =
    st\<lparr>drawn := drawn st + 1,
       itemsMap :=
         (case map_of (itemsMap st) (sku item) of
            Some e \<Rightarrow> itemsMap_set (sku item)
              (e\<lparr>variants := variants e @
                 [\<lparr>id_v = fresh (drawn st), size_v = size_v v, inStock = inStock v,
                   quantity = quantity v, location = location v\<rparr>]\<rparr>) (itemsMap st)
          | None \<Rightarrow> itemsMap_set (sku item)
              \<lparr>sku = sku item, title = ttl, imageUrl = img,
               variants = [\<lparr>id_v = fresh (drawn st), size_v = size_v v, inStock = inStock v,
                   quantity = quantity v, location = location v\<rparr>],
               customFields = None\<rparr> (itemsMap st))\<rparr>"
proof -
  let ?h = "case imageUrl item of None \<Rightarrow> [] | Some u \<Rightarrow> u"
  have f: "plainField (sku item)" "trim (sku item) = sku item" "plainField (title item)"
    "plainField (size_v v)" "trim (size_v v) = size_v v" "size_v v \<noteq> []"
    "plainField (location v)" "trim (location v) = location v"
    using ex v by (simp_all add: exportable_def)
  have "\<forall>f \<in> set [sku item, title item, size_v v, booleanToString (inStock v),
      numberToString (quantity v), location v]. CHR '','' \<notin> set f \<and> CHR 0x22 \<notin> set f"
    using f booleanToString_props(3,4) numberToString_plain(1,2) by (simp add: plainField_def)
  from tokenize_six [OF this, of ?h]
  obtain r rs where tk: "tokenize (exportRow item v) =
      [sku item, trim (title item), size_v v, booleanToString (inStock v),
       numberToString (quantity v), location v] @ r # rs"
    by (auto simp: exportRow_def f booleanToString_props(1) trim_numberToString)
  have sz: "filter (\<lambda>s. s \<noteq> []) (map trim (js_split CHR '','' [] (size_v v))) = [size_v v]"
    using f by (simp add: js_split_no_sep plainField_def)
  have q: "(case parseInt (numberToString (quantity v)) of None \<Rightarrow> 0 | Some q \<Rightarrow> q) = quantity v"
    by (simp add: parseInt_numberToString)
  show ?thesis
    by (rule exI [of _ "if trim r = [] then None else Some (trim r)"],
        rule exI [of _ "trim (trim (title item))"])
       (simp add: processRow_def tk Let_def sz q booleanToString_props(2) f nth_append
          split: option.splits)
qed

lemma tuplesOf_Cons: "tuplesOf (x # xs) = tuplesOf [x] \<union> tuplesOf xs"
  by (simp add: tuplesOf_def)

lemma tuplesOf_append: "tuplesOf (xs @ ys) = tuplesOf xs \<union> tuplesOf ys"
  by (simp add: tuplesOf_def)

lemma tuplesOf_Nil: "tuplesOf [] = {}"
  by (simp add: tuplesOf_def)

lemma itemsMap_set_absent: "map_of m k = None \<Longrightarrow> itemsMap_set k x m = m @ [(k, x)]"
  by (induction m) (auto split: if_splits)

lemma tuplesOf_extended:
  "tuplesOf [e\<lparr>variants := variants e @ vs\<rparr>] = tuplesOf [e] \<union> tuplesOf [e\<lparr>variants := vs\<rparr>]"
  by (simp add: tuplesOf_def)

lemma itemsMap_set_present:
  "map_of m k = Some e \<Longrightarrow>
   tuplesOf (map snd (itemsMap_set k (e\<lparr>variants := variants e @ vs\<rparr>) m)) =
     tuplesOf (map snd m) \<union> tuplesOf [e\<lparr>variants := vs\<rparr>]"
proof (induction m)
  case Nil
  then show ?case by simp
next
  case (Cons p m)
  obtain k' e' where p: "p = (k', e')" by (cases p)
  show ?case
  proof (cases "k' = k")
    case True
    with Cons.prems p have "e' = e" by simp
    with True p show ?thesis
      using tuplesOf_Cons [of "e\<lparr>variants := variants e @ vs\<rparr>" "map snd m"]
        tuplesOf_Cons [of e "map snd m"] tuplesOf_extended [of e vs]
      by auto
  next
    case False
    with Cons p have "tuplesOf (map snd (itemsMap_set k (e\<lparr>variants := variants e @ vs\<rparr>) m)) =
        tuplesOf (map snd m) \<union> tuplesOf [e\<lparr>variants := vs\<rparr>]" by simp
    with False p show ?thesis
      using tuplesOf_Cons [of e' "map snd (itemsMap_set k (e\<lparr>variants := variants e @ vs\<rparr>) m)"]
        tuplesOf_Cons [of e' "map snd m"]
      by auto
  qed
qed

lemma keyed_set: "keyed m \<Longrightarrow> sku x = k \<Longrightarrow> keyed (itemsMap_set k x m)"
  by (induction m) (auto simp: keyed_def)

lemma keyed_lookup: "keyed m \<Longrightarrow> map_of m k = Some e \<Longrightarrow> sku e = k"
  by (induction m) (auto simp: keyed_def split: if_splits)


lemma foldl_exportRows:
  assumes "keyed (itemsMap st)"
    and "\<forall>p \<in> set ps. exportable (fst p) \<and> snd p \<in> set (variants (fst p))"
  shows "keyed (itemsMap (foldl (processRow fresh) st
           (enumerate n (map (\<lambda>p. exportRow (fst p) (snd p)) ps)))) \<and>
    tuplesOf (map snd (itemsMap (foldl (processRow fresh) st
           (enumerate n (map (\<lambda>p. exportRow (fst p) (snd p)) ps))))) =
      tuplesOf (map snd (itemsMap st)) \<union>
      set (map (\<lambda>p. (sku (fst p), size_v (snd p), quantity (snd p), location (snd p),
             inStock (snd p))) ps)"
  using assms
proof (induction ps arbitrary: st n)
  case Nil
  then show ?case by simp
next
  case (Cons p ps)
  obtain item v where p: "p = (item, v)" by (cases p)
  have ok: "exportable item" "v \<in> set (variants item)" using Cons.prems(2) p by simp_all
  let ?nv = "\<lparr>id_v = fresh (drawn st), size_v = size_v v, inStock = inStock v,
      quantity = quantity v, location = location v\<rparr>"
  let ?st1 = "processRow fresh st (n, exportRow item v)"
  from processRow_exportRow [OF ok, of fresh st n]
  obtain img ttl where st1: "itemsMap ?st1 =
      (case map_of (itemsMap st) (sku item) of
         Some e \<Rightarrow> itemsMap_set (sku item) (e\<lparr>variants := variants e @ [?nv]\<rparr>) (itemsMap st)
       | None \<Rightarrow> itemsMap_set (sku item)
           \<lparr>sku = sku item, title = ttl, imageUrl = img, variants = [?nv],
            customFields = None\<rparr> (itemsMap st))"
    by force
  have step: "keyed (itemsMap ?st1) \<and>
      tuplesOf (map snd (itemsMap ?st1)) =
        tuplesOf (map snd (itemsMap st)) \<union>
        {(sku item, size_v v, quantity v, location v, inStock v)}"
  proof (cases "map_of (itemsMap st) (sku item)")
    case None
    then show ?thesis
      using Cons.prems(1) keyed_set [of "itemsMap st"]
      by (simp add: st1 itemsMap_set_absent tuplesOf_append) (simp add: tuplesOf_def keyed_def)
  next
    case (Some e)
    have k: "sku e = sku item" using keyed_lookup [OF Cons.prems(1) Some] .
    have "keyed (itemsMap_set (sku item) (e\<lparr>variants := variants e @ [?nv]\<rparr>) (itemsMap st))"
      using keyed_set [OF Cons.prems(1), of "e\<lparr>variants := variants e @ [?nv]\<rparr>" "sku item"] k
      by simp
    moreover have "tuplesOf [e\<lparr>variants := [?nv]\<rparr>] =
        {(sku item, size_v v, quantity v, location v, inStock v)}"
      using k by (simp add: tuplesOf_def)
    ultimately show ?thesis
      using itemsMap_set_present [OF Some, of "[?nv]"] by (simp add: st1 Some)
  qed
  have rest: "\<forall>p \<in> set ps. exportable (fst p) \<and> snd p \<in> set (variants (fst p))"
    using Cons.prems(2) by simp
  from Cons.IH [OF conjunct1 [OF step] rest, of "Suc n"] step p
  show ?case by auto
qed

lemma exportRow_no_newline:
  assumes "exportable item" "v \<in> set (variants item)"
  shows "CHR 0x0A \<notin> set (exportRow item v)"
proof -
  have "CHR 0x0A \<notin> set (case imageUrl item of None \<Rightarrow> [] | Some u \<Rightarrow> u)"
    using assms(1) by (cases "imageUrl item") (simp_all add: exportable_def)
  then show ?thesis
    using assms booleanToString_props(5) [of "inStock v"] numberToString_plain(3) [of "quantity v"]
    by (simp add: exportRow_def exportable_def plainField_def)
qed

lemma exportRow_nonblank: "trim (exportRow item v) \<noteq> []"
proof -
  have "CHR '','' \<in> set (exportRow item v)" by (simp add: exportRow_def)
  moreover have "\<not> isWhiteSpace CHR '',''" by (simp add: isWhiteSpace_def)
  ultimately show ?thesis by (rule trim_nonblank)
qed

lemma headers_line:
  "CHR 0x0A \<notin> set ''SKU,TITLE,SIZE,IN STOCK,QUANTITY,LOCATION,IMAGE_URL''"
  "trim ''SKU,TITLE,SIZE,IN STOCK,QUANTITY,LOCATION,IMAGE_URL'' \<noteq> []"
  by (simp_all add: trim_def isWhiteSpace_def)

lemma rows_as_pairs:
  "concat (map (\<lambda>item. map (exportRow item) (variants item)) its) =
   map (\<lambda>p. exportRow (fst p) (snd p))
     (concat (map (\<lambda>item. map (Pair item) (variants item)) its))"
  by (induction its) (simp_all add: comp_def)

lemma tuples_as_pairs:
  "tuplesOf its =
   set (map (\<lambda>p. (sku (fst p), size_v (snd p), quantity (snd p), location (snd p), inStock (snd p)))
     (concat (map (\<lambda>item. map (Pair item) (variants item)) its)))"
  unfolding tuplesOf_def by (induction its) (simp_all add: comp_def)


lemma map_of_itemsMap_set:
  "map_of (itemsMap_set k x m) k' = (if k' = k then Some x else map_of m k')"
  by (induction m) auto

lemma keys_itemsMap_set:
  "map fst (itemsMap_set k x m) = (if k \<in> fst ` set m then map fst m else map fst m @ [k])"
proof (induction m)
  case Nil
  show ?case by simp
next
  case (Cons p m)
  obtain k' e' where p: "p = (k', e')" by (cases p)
  show ?case
  proof (cases "k' = k")
    case True
    with p show ?thesis by simp
  next
    case False
    with p Cons show ?thesis by auto
  qed
qed

lemma distinct_itemsMap_set:
  "distinct (map fst m) \<Longrightarrow> distinct (map fst (itemsMap_set k x m))"
  by (simp add: keys_itemsMap_set)

lemma foldl_exportRows_grouped:
  assumes "distinct (map fst (itemsMap st))"
    and "\<forall>k. (map_of (itemsMap st) k = None \<longrightarrow> filter (\<lambda>q. sku (fst q) = k) qs = []) \<and>
          (\<forall>e. map_of (itemsMap st) k = Some e \<longrightarrow> sku e = k \<and>
              filter (\<lambda>q. sku (fst q) = k) qs \<noteq> [] \<and>
              map variantData (variants e) =
                map (\<lambda>q. variantData (snd q)) (filter (\<lambda>q. sku (fst q) = k) qs))"
    and "\<forall>p \<in> set ps. exportable (fst p) \<and> snd p \<in> set (variants (fst p))"
  shows "distinct (map fst (itemsMap (foldl (processRow fresh) st
           (enumerate n (map (\<lambda>p. exportRow (fst p) (snd p)) ps))))) \<and>
    (\<forall>k. (map_of (itemsMap (foldl (processRow fresh) st
                 (enumerate n (map (\<lambda>p. exportRow (fst p) (snd p)) ps)))) k = None \<longrightarrow>
              filter (\<lambda>q. sku (fst q) = k) (qs @ ps) = []) \<and>
          (\<forall>e. map_of (itemsMap (foldl (processRow fresh) st
                 (enumerate n (map (\<lambda>p. exportRow (fst p) (snd p)) ps)))) k = Some e \<longrightarrow>
              sku e = k \<and> filter (\<lambda>q. sku (fst q) = k) (qs @ ps) \<noteq> [] \<and>
              map variantData (variants e) =
                map (\<lambda>q. variantData (snd q)) (filter (\<lambda>q. sku (fst q) = k) (qs @ ps))))"
  using assms
proof (induction ps arbitrary: st qs n)
  case Nil
  then show ?case by simp
next
  case (Cons p ps)
  obtain item v where p: "p = (item, v)" by (cases p)
  have ok: "exportable item" "v \<in> set (variants item)" using Cons.prems(3) p by simp_all
  let ?nv = "\<lparr>id_v = fresh (drawn st), size_v = size_v v, inStock = inStock v,
      quantity = quantity v, location = location v\<rparr>"
  let ?st1 = "processRow fresh st (n, exportRow item v)"
  let ?m = "itemsMap st"
  have nv: "variantData ?nv = variantData v" by (simp add: variantData_def)
  from processRow_exportRow [OF ok, of fresh st n]
  obtain img ttl where st1: "itemsMap ?st1 =
      (case map_of ?m (sku item) of
         Some e \<Rightarrow> itemsMap_set (sku item) (e\<lparr>variants := variants e @ [?nv]\<rparr>) ?m
       | None \<Rightarrow> itemsMap_set (sku item)
           \<lparr>sku = sku item, title = ttl, imageUrl = img, variants = [?nv],
            customFields = None\<rparr> ?m)"
    by force
  have d1: "distinct (map fst (itemsMap ?st1))"
    using Cons.prems(1) by (simp add: st1 distinct_itemsMap_set split: option.splits)
  have g1: "\<forall>k. (map_of (itemsMap ?st1) k = None \<longrightarrow>
              filter (\<lambda>q. sku (fst q) = k) (qs @ [p]) = []) \<and>
          (\<forall>e. map_of (itemsMap ?st1) k = Some e \<longrightarrow> sku e = k \<and>
              filter (\<lambda>q. sku (fst q) = k) (qs @ [p]) \<noteq> [] \<and>
              map variantData (variants e) =
                map (\<lambda>q. variantData (snd q)) (filter (\<lambda>q. sku (fst q) = k) (qs @ [p])))"
  proof
    fix k
    note old = Cons.prems(2) [rule_format, of k]
    show "(map_of (itemsMap ?st1) k = None \<longrightarrow>
              filter (\<lambda>q. sku (fst q) = k) (qs @ [p]) = []) \<and>
          (\<forall>e. map_of (itemsMap ?st1) k = Some e \<longrightarrow> sku e = k \<and>
              filter (\<lambda>q. sku (fst q) = k) (qs @ [p]) \<noteq> [] \<and>
              map variantData (variants e) =
                map (\<lambda>q. variantData (snd q)) (filter (\<lambda>q. sku (fst q) = k) (qs @ [p])))"
    proof (cases "k = sku item")
      case False
      then have "map_of (itemsMap ?st1) k = map_of ?m k"
        by (simp add: st1 map_of_itemsMap_set split: option.splits)
      with old False p show ?thesis by simp
    next
      case True
      show ?thesis
      proof (cases "map_of ?m (sku item)")
        case None
        with old True have "filter (\<lambda>q. sku (fst q) = k) qs = []" by simp
        with None True p nv show ?thesis by (simp add: st1 map_of_itemsMap_set)
      next
        case (Some e)
        with old True have "sku e = k" "map variantData (variants e) =
            map (\<lambda>q. variantData (snd q)) (filter (\<lambda>q. sku (fst q) = k) qs)" by simp_all
        with Some True p nv show ?thesis by (simp add: st1 map_of_itemsMap_set)
      qed
    qed
  qed
  have rest: "\<forall>p \<in> set ps. exportable (fst p) \<and> snd p \<in> set (variants (fst p))"
    using Cons.prems(3) by simp
  from Cons.IH [OF d1 g1 rest, of "Suc n"] p show ?case by simp
qed

lemma group_as_pairs:
  "map (\<lambda>q. variantData (snd q))
     (filter (\<lambda>q. sku (fst q) = k) (concat (map (\<lambda>item. map (Pair item) (variants item)) its))) =
   groupOf k its"
  unfolding groupOf_def by (induction its) (simp_all add: comp_def)

lemma keyed_distinct_skus:
  assumes "distinct (map fst m)"
    and "\<forall>k e. map_of m k = Some e \<longrightarrow> sku e = k"
  shows "map sku (map snd m) = map fst m"
proof -
  have "\<forall>p \<in> set m. sku (snd p) = fst p"
  proof
    fix p assume "p \<in> set m"
    then have "map_of m (fst p) = Some (snd p)"
      using assms(1) map_of_is_SomeI [of m "fst p" "snd p"] by simp
    with assms(2) show "sku (snd p) = fst p" by blast
  qed
  then show ?thesis by (induction m) simp_all
qed

text \<open>
  C3 (merge round-trip), as the code has it. The export writes the fields unquoted, so a
  size that contains the delimiter does not come back: the item A1 with the one size
  \<^verbatim>\<open>M,L\<close> is exported as a row of eight fields and re-imported as size M, not in stock,
  quantity 0, at location \<^verbatim>\<open>10\<close>.
\<close>

theorem roundtrip_counterexample:
  "handleExportCSV
     [\<lparr>sku = ''A1'', title = ''Shirt'', imageUrl = None,
       variants = [\<lparr>id_v = ''v1'', size_v = ''M,L'', inStock = True, quantity = 10,
                    location = ''R1''\<rparr>],
       customFields = None, id_i = ''i1''\<rparr>] =
     Some (''SKU,TITLE,SIZE,IN STOCK,QUANTITY,LOCATION,IMAGE_URL'' @ [CHR 0x0A] @
           ''A1,Shirt,M,L,true,10,R1,'') \<and>
   parseCSV variantIds (''SKU,TITLE,SIZE,IN STOCK,QUANTITY,LOCATION,IMAGE_URL'' @ [CHR 0x0A] @
           ''A1,Shirt,M,L,true,10,R1,'') =
     Inr [\<lparr>sku = ''A1'', title = ''Shirt'', imageUrl = Some ''R1'',
           variants = [\<lparr>id_v = ''v0'', size_v = ''M'', inStock = False, quantity = 0,
                        location = ''10''\<rparr>],
           customFields = None\<rparr>] \<and>
   tuplesOf [\<lparr>sku = ''A1'', title = ''Shirt'', imageUrl = Some ''R1'',
           variants = [\<lparr>id_v = ''v0'', size_v = ''M'', inStock = False, quantity = 0,
                        location = ''10''\<rparr>],
           customFields = None\<rparr>] \<noteq>
   tuplesOf [\<lparr>sku = ''A1'', title = ''Shirt'', imageUrl = None,
       variants = [\<lparr>id_v = ''v1'', size_v = ''M,L'', inStock = True, quantity = 10,
                    location = ''R1''\<rparr>],
       customFields = None, id_i = ''i1''\<rparr>]"
proof -
  have "handleExportCSV
     [\<lparr>sku = ''A1'', title = ''Shirt'', imageUrl = None,
       variants = [\<lparr>id_v = ''v1'', size_v = ''M,L'', inStock = True, quantity = 10,
                    location = ''R1''\<rparr>],
       customFields = None, id_i = ''i1''\<rparr>] =
     Some (''SKU,TITLE,SIZE,IN STOCK,QUANTITY,LOCATION,IMAGE_URL'' @ [CHR 0x0A] @
           ''A1,Shirt,M,L,true,10,R1,'')"
    by code_simp
  moreover have "parseCSV variantIds (''SKU,TITLE,SIZE,IN STOCK,QUANTITY,LOCATION,IMAGE_URL'' @
           [CHR 0x0A] @ ''A1,Shirt,M,L,true,10,R1,'') =
     Inr [\<lparr>sku = ''A1'', title = ''Shirt'', imageUrl = Some ''R1'',
           variants = [\<lparr>id_v = ''v0'', size_v = ''M'', inStock = False, quantity = 0,
                        location = ''10''\<rparr>],
           customFields = None\<rparr>]"
    by code_simp
  ultimately show ?thesis by (simp add: tuplesOf_def)
qed

text \<open>
  C3, amended. Take items of which at least one has a variant, whose SKUs, sizes and
  locations contain no comma, double quote or line feed and no white space at either end,
  whose sizes are not empty, whose titles contain no comma, double quote or line feed,
  whose image URLs contain no line feed and whose quantities are safe integers. Then the
  export produces a text and the import of that text succeeds. The items it returns are
  grouped by SKU: no two of them share a SKU, and each has at least one variant and
  carries, in order, the (size, quantity, location, in stock) values of the variants of
  all exported items with its SKU. Hence they have the same set of tuples (SKU, size,
  quantity, location, in stock) as the items exported.
\<close>

theorem export_import_roundtrip:
  assumes "\<forall>item \<in> set its. exportable item" and "\<exists>item \<in> set its. variants item \<noteq> []"
  shows "\<exists>csv parsed. handleExportCSV its = Some csv \<and> parseCSV fresh csv = Inr parsed \<and>
    distinct (map sku parsed) \<and>
    (\<forall>p \<in> set parsed.
       variants p \<noteq> [] \<and> map variantData (variants p) = groupOf (sku p) its) \<and>
    tuplesOf parsed = tuplesOf its"
proof -
  let ?headers = "''SKU,TITLE,SIZE,IN STOCK,QUANTITY,LOCATION,IMAGE_URL''"
  let ?ps = "concat (map (\<lambda>item. map (Pair item) (variants item)) its)"
  let ?rows = "map (\<lambda>p. exportRow (fst p) (snd p)) ?ps"
  let ?csv = "js_join [CHR 0x0A] (?headers # ?rows)"
  let ?init = "\<lparr>warned = [], drawn = 0, itemsMap = []\<rparr>"
  let ?m = "itemsMap (parseLines fresh ?rows)"
  have ne: "its \<noteq> []" using assms(2) by auto
  have ok: "\<forall>p \<in> set ?ps. exportable (fst p) \<and> snd p \<in> set (variants (fst p))"
    using assms(1) by auto
  have rows_ne: "?rows \<noteq> []" using assms(2) by auto
  have export: "handleExportCSV its = Some ?csv"
    using ne by (simp add: handleExportCSV_def Let_def rows_as_pairs)
  have "\<forall>x \<in> set (?headers # ?rows). CHR 0x0A \<notin> set x"
    using ok exportRow_no_newline headers_line(1) by auto
  then have split: "js_split CHR 0x0A [] ?csv = ?headers # ?rows"
    using js_split_join [of "?headers # ?rows" "CHR 0x0A"] by blast
  have "\<forall>x \<in> set (?headers # ?rows). trim x \<noteq> []"
    using exportRow_nonblank headers_line(2) by auto
  then have lines: "filter (\<lambda>line. trim line \<noteq> []) (js_split CHR 0x0A [] ?csv) = ?headers # ?rows"
    unfolding split by (simp only: filter_True)
  have len: "\<not> length (?headers # ?rows) < 2" using rows_ne by (cases ?rows) simp_all
  have run: "parseCSV_run fresh ?csv = Inr (parseLines fresh ?rows)"
    using len by (simp only: parseCSV_run_def lines Let_def if_False drop_Suc_Cons drop_0 One_nat_def)
  have parsed: "parseCSV fresh ?csv = Inr (map snd ?m)"
    by (simp add: parseCSV_def run)
  have "keyed (itemsMap ?init)" by (simp add: keyed_def)
  from foldl_exportRows [OF this ok, of fresh 0]
  have tuples: "tuplesOf (map snd ?m) = tuplesOf its"
    by (simp add: parseLines_def tuplesOf_Nil tuples_as_pairs)
  have d0: "distinct (map fst (itemsMap ?init))" by simp
  have g0: "\<forall>k. (map_of (itemsMap ?init) k = None \<longrightarrow>
        filter (\<lambda>q. sku (fst q) = k) ([] :: (inventoryItem \<times> sizeVariant) list) = []) \<and>
      (\<forall>e. map_of (itemsMap ?init) k = Some e \<longrightarrow> sku e = k \<and>
        filter (\<lambda>q. sku (fst q) = k) ([] :: (inventoryItem \<times> sizeVariant) list) \<noteq> [] \<and>
        map variantData (variants e) =
          map (\<lambda>q. variantData (snd q))
            (filter (\<lambda>q. sku (fst q) = k) ([] :: (inventoryItem \<times> sizeVariant) list)))"
    by simp
  from foldl_exportRows_grouped [OF d0 g0 ok, of fresh 0]
  have dm: "distinct (map fst ?m)"
    and gm: "\<And>k e. map_of ?m k = Some e \<Longrightarrow>
      sku e = k \<and> filter (\<lambda>q. sku (fst q) = k) ?ps \<noteq> [] \<and>
      map variantData (variants e) = groupOf k its"
    by (simp_all add: parseLines_def group_as_pairs)
  have skus: "map sku (map snd ?m) = map fst ?m"
    using dm gm by (intro keyed_distinct_skus) blast+
  have dist: "distinct (map sku (map snd ?m))" using dm by (simp only: skus)
  have groups: "\<forall>p \<in> set (map snd ?m).
      variants p \<noteq> [] \<and> map variantData (variants p) = groupOf (sku p) its"
  proof
    fix p assume "p \<in> set (map snd ?m)"
    then obtain k where "(k, p) \<in> set ?m" by auto
    then have "map_of ?m k = Some p" using dm by (rule map_of_is_SomeI [rotated])
    from gm [OF this]
    have k: "sku p = k" and n: "filter (\<lambda>q. sku (fst q) = k) ?ps \<noteq> []"
      and g: "map variantData (variants p) = groupOf k its" by simp_all
    from g have "map variantData (variants p) =
        map (\<lambda>q. variantData (snd q)) (filter (\<lambda>q. sku (fst q) = k) ?ps)"
      by (simp only: group_as_pairs)
    with n have "variants p \<noteq> []" by auto
    with k g show "variants p \<noteq> [] \<and> map variantData (variants p) = groupOf (sku p) its"
      by simp
  qed
  show ?thesis using export parsed dist groups tuples by blast
qed



theorem export_import_roundtrip_witness:
  "exportable
     \<lparr>sku = ''A1'', title = ''Shirt'', imageUrl = Some ''data:image/png;base64,AAAA'',
      variants = [\<lparr>id_v = ''v1'', size_v = ''M'', inStock = True, quantity = 10, location = ''R1''\<rparr>],
      customFields = None, id_i = ''i1''\<rparr> \<and>
   exportable
     \<lparr>sku = ''A1'', title = ''Shirt'', imageUrl = None,
      variants = [\<lparr>id_v = ''v2'', size_v = ''L'', inStock = False, quantity = - 2, location = []\<rparr>],
      customFields = None, id_i = ''i2''\<rparr> \<and>
   (\<exists>csv parsed.
      handleExportCSV
        [\<lparr>sku = ''A1'', title = ''Shirt'', imageUrl = Some ''data:image/png;base64,AAAA'',
          variants = [\<lparr>id_v = ''v1'', size_v = ''M'', inStock = True, quantity = 10, location = ''R1''\<rparr>],
          customFields = None, id_i = ''i1''\<rparr>,
         \<lparr>sku = ''A1'', title = ''Shirt'', imageUrl = None,
          variants = [\<lparr>id_v = ''v2'', size_v = ''L'', inStock = False, quantity = - 2, location = []\<rparr>],
          customFields = None, id_i = ''i2''\<rparr>] = Some csv \<and>
      parseCSV variantIds csv = Inr parsed \<and>
      map sku parsed = [''A1''] \<and>
      map (\<lambda>p. map variantData (variants p)) parsed =
        [[(''M'', 10, ''R1'', True), (''L'', - 2, [], False)]] \<and>
      tuplesOf parsed = {(''A1'', ''M'', 10, ''R1'', True), (''A1'', ''L'', - 2, [], False)})"
proof -
  let ?a = "\<lparr>sku = ''A1'', title = ''Shirt'', imageUrl = Some ''data:image/png;base64,AAAA'',
      variants = [\<lparr>id_v = ''v1'', size_v = ''M'', inStock = True, quantity = 10, location = ''R1''\<rparr>],
      customFields = None, id_i = ''i1''\<rparr>"
  let ?b = "\<lparr>sku = ''A1'', title = ''Shirt'', imageUrl = None,
      variants = [\<lparr>id_v = ''v2'', size_v = ''L'', inStock = False, quantity = - 2, location = []\<rparr>],
      customFields = None, id_i = ''i2''\<rparr>"
  have e: "exportable ?a" "exportable ?b"
    by (simp_all add: exportable_def plainField_def trim_def isWhiteSpace_def)
  then have a: "\<forall>item \<in> set [?a, ?b]. exportable item" by simp
  have b: "\<exists>item \<in> set [?a, ?b]. variants item \<noteq> []" by simp
  from export_import_roundtrip [OF a b, of variantIds]
  obtain csv parsed where r: "handleExportCSV [?a, ?b] = Some csv"
    "parseCSV variantIds csv = Inr parsed" "distinct (map sku parsed)"
    "\<forall>p \<in> set parsed. variants p \<noteq> [] \<and> map variantData (variants p) = groupOf (sku p) [?a, ?b]"
    "tuplesOf parsed = tuplesOf [?a, ?b]"
    by blast
  have t: "tuplesOf [?a, ?b] = {(''A1'', ''M'', 10, ''R1'', True), (''A1'', ''L'', - 2, [], False)}"
    by (simp add: tuplesOf_def)
  have g: "groupOf ''A1'' [?a, ?b] = [(''M'', 10, ''R1'', True), (''L'', - 2, [], False)]"
    by (simp add: groupOf_def variantData_def)
  have skus: "\<forall>p \<in> set parsed. sku p = ''A1''"
  proof
    fix p assume p: "p \<in> set parsed"
    with r(4) obtain v where "v \<in> set (variants p)" by (cases "variants p") auto
    with p have "(sku p, size_v v, quantity v, location v, inStock v) \<in> tuplesOf parsed"
      by (auto simp: tuplesOf_def)
    then show "sku p = ''A1''" unfolding r(5) t by auto
  qed
  have "parsed \<noteq> []" using r(5) t by (auto simp: tuplesOf_def)
  then obtain p ps where pp: "parsed = p # ps" by (cases parsed) auto
  have "ps = []"
  proof (cases ps)
    case (Cons q qs)
    with pp skus r(3) show ?thesis by auto
  qed simp
  with pp skus r(4) g have "map sku parsed = [''A1'']"
    "map (\<lambda>p. map variantData (variants p)) parsed =
        [[(''M'', 10, ''R1'', True), (''L'', - 2, [], False)]]" by simp_all
  with r(1,2,5) t e show ?thesis by auto
qed

end
